(* ===== verification/Judge_Prelude.thy ===== *)
theory Judge_Prelude
  imports Main "HOL-Library.Word" "HOL-Library.Monad_Syntax" "HOL-Library.Sublist"
begin

text \<open>
  Shared vocabulary of the development: the fact collections, little-endian byte images of
  machine integers, decimal printing (\<open>std::to_string\<close>), C strings and substring search, and
  the generic list facts the component theories use.
\<close>

named_theorems codec_simps \<open>lengths and inverses of the fixed-width encoders\<close>
named_theorems log_simps \<open>effects of an operation on the log of system calls\<close>

type_synonym byte = "8 word"
type_synonym bytes = "byte list"
type_synonym cint = "32 word"
type_synonym u32 = "32 word"
type_synonym u64 = "64 word"

section \<open>Little-endian byte images\<close>

lemma unat_bound: "unat (w :: 'a::len word) < 2 ^ LENGTH('a)"
  by (rule unsigned_less)

fun le_bytes :: "nat \<Rightarrow> nat \<Rightarrow> bytes" where
  "le_bytes 0 x = []"
| "le_bytes (Suc n) x = word_of_nat x # le_bytes n (x div 256)"

fun le_value :: "bytes \<Rightarrow> nat" where
  "le_value [] = 0"
| "le_value (b # bs) = unat b + 256 * le_value bs"

lemma length_le_bytes [simp, codec_simps]: "length (le_bytes n x) = n"
  by (induction n arbitrary: x) auto

lemma le_value_le_bytes: "le_value (le_bytes n x) = x mod 256 ^ n"
proof (induction n arbitrary: x)
  case 0
  then show ?case by simp
next
  case (Suc n)
  have "le_value (le_bytes (Suc n) x) = x mod 256 + 256 * (x div 256 mod 256 ^ n)"
    by (simp add: Suc.IH unat_of_nat)
  also have "\<dots> = x mod (256 * 256 ^ n)"
    by (simp only: mod_mult2_eq add.commute)
  finally show ?case by simp
qed

lemma le_bytes_le_value: "le_bytes (length bs) (le_value bs) = bs"
proof (induction bs)
  case Nil
  then show ?case by simp
next
  case (Cons b bs)
  have small: "unat b < 256" using unat_bound [of b] by simp
  have "(unat b + 256 * le_value bs) div 256 = le_value bs"
    using small by simp
  moreover have "(word_of_nat (unat b + 256 * le_value bs) :: byte) = b"
  proof -
    have "(256 :: byte) = 0" by simp
    then have "256 * (word_of_nat (le_value bs) :: byte) = 0"
      by (metis mult_zero_left)
    then show ?thesis by simp
  qed
  ultimately show ?case using Cons.IH by simp
qed

definition enc32 :: "u32 \<Rightarrow> bytes" where
  "enc32 w = le_bytes 4 (unat w)"

definition dec32 :: "bytes \<Rightarrow> u32" where
  "dec32 bs = word_of_nat (le_value bs)"

definition enc64 :: "u64 \<Rightarrow> bytes" where
  "enc64 w = le_bytes 8 (unat w)"

definition dec64 :: "bytes \<Rightarrow> u64" where
  "dec64 bs = word_of_nat (le_value bs)"

lemma length_enc32 [simp, codec_simps]: "length (enc32 w) = 4"
  by (simp add: enc32_def)

lemma length_enc64 [simp, codec_simps]: "length (enc64 w) = 8"
  by (simp add: enc64_def)

lemma dec32_enc32 [simp, codec_simps]: "dec32 (enc32 w) = w"
proof -
  have "unat w < 256 ^ 4" using unat_bound [of w] by simp
  then show ?thesis by (simp add: dec32_def enc32_def le_value_le_bytes)
qed

lemma dec64_enc64 [simp, codec_simps]: "dec64 (enc64 w) = w"
proof -
  have "unat w < 256 ^ 8" using unat_bound [of w] by simp
  then show ?thesis by (simp add: dec64_def enc64_def le_value_le_bytes)
qed

lemma enc32_dec32:
  assumes "length bs = 4"
  shows "enc32 (dec32 bs) = bs"
proof -
  have bound: "le_value cs < 256 ^ length cs" for cs :: bytes
  proof (induction cs)
    case (Cons c cs)
    have "unat c < 256" using unat_bound [of c] by simp
    with Cons.IH show ?case by simp
  qed simp
  have "unat (dec32 bs) = le_value bs"
    using bound [of bs] assms by (simp add: dec32_def unat_of_nat take_bit_eq_mod)
  with assms show ?thesis using le_bytes_le_value [of bs] by (simp add: enc32_def)
qed

section \<open>Decimal printing: \<open>std::to_string\<close>\<close>

definition digit_char :: "nat \<Rightarrow> char" where
  "digit_char d = char_of (48 + d)"

fun to_decimal :: "nat \<Rightarrow> string" where
  "to_decimal n = (if n < 10 then [digit_char n] else to_decimal (n div 10) @ [digit_char (n mod 10)])"

declare to_decimal.simps [simp del]

definition to_decimal_int :: "int \<Rightarrow> string" where
  "to_decimal_int i = (if i < 0 then CHR ''-'' # to_decimal (nat (- i)) else to_decimal (nat i))"

text \<open>The value a decimal string denotes; the inverse that makes printing injective.\<close>

definition decimal_value :: "string \<Rightarrow> nat" where
  "decimal_value cs = fold (\<lambda>c acc. 10 * acc + (of_char c - 48)) cs 0"

lemma decimal_value_snoc: "decimal_value (cs @ [c]) = 10 * decimal_value cs + (of_char c - 48)"
  by (simp add: decimal_value_def)

lemma of_digit_char: "d < 10 \<Longrightarrow> of_char (digit_char d) = 48 + d"
  by (simp add: digit_char_def)

lemma decimal_value_to_decimal: "decimal_value (to_decimal n) = n"
proof (induction n rule: to_decimal.induct)
  case (1 n)
  show ?case
  proof (cases "n < 10")
    case True
    then show ?thesis
      by (simp add: to_decimal.simps [of n] decimal_value_def of_digit_char)
  next
    case False
    with "1.IH" have "decimal_value (to_decimal (n div 10)) = n div 10" by simp
    moreover have "of_char (digit_char (n mod 10)) = 48 + n mod 10"
      by (rule of_digit_char) simp
    ultimately show ?thesis using False
      by (simp add: to_decimal.simps [of n] decimal_value_snoc)
  qed
qed

lemma to_decimal_inject: "to_decimal m = to_decimal n \<longleftrightarrow> m = n"
  by (metis decimal_value_to_decimal)

section \<open>C strings and \<open>strstr\<close>\<close>

definition string_bytes :: "string \<Rightarrow> bytes" where
  "string_bytes cs = map (\<lambda>c. word_of_nat (of_char c)) cs"

lemma length_string_bytes [simp]: "length (string_bytes cs) = length cs"
  by (simp add: string_bytes_def)

text \<open>A NUL-terminated buffer read as a C string.\<close>

definition c_string :: "bytes \<Rightarrow> bytes" where
  "c_string bs = takeWhile (\<lambda>b. b \<noteq> 0) bs"

text \<open>\<open>strstr\<close>: what follows the first occurrence of the needle, or nothing.\<close>

fun after_first :: "'a list \<Rightarrow> 'a list \<Rightarrow> 'a list option" where
  "after_first pat [] = (if pat = [] then Some [] else None)"
| "after_first pat (x # xs) =
     (if prefix pat (x # xs) then Some (drop (length pat) (x # xs)) else after_first pat xs)"

lemma after_first_Some: "after_first pat xs = Some rest \<Longrightarrow> \<exists>pre. xs = pre @ pat @ rest"
proof (induction xs)
  case Nil
  then show ?case by (auto split: if_splits)
next
  case (Cons x xs)
  show ?case
  proof (cases "prefix pat (x # xs)")
    case True
    then obtain zs where "x # xs = pat @ zs" by (auto elim: prefixE)
    moreover from Cons.prems True have "drop (length pat) (x # xs) = rest"
      by simp
    ultimately show ?thesis by (intro exI [of _ "[]"]) simp
  next
    case False
    with Cons obtain pre where "xs = pre @ pat @ rest" by auto
    then show ?thesis by (intro exI [of _ "x # pre"]) simp
  qed
qed

lemma after_first_None: "after_first pat xs = None \<Longrightarrow> xs \<noteq> pre @ pat @ rest"
proof (induction xs arbitrary: pre)
  case Nil
  then show ?case by (auto split: if_splits)
next
  case (Cons x xs)
  then have np: "\<not> prefix pat (x # xs)" and n: "after_first pat xs = None"
    by (auto split: if_splits)
  show ?case
  proof
    assume eq: "x # xs = pre @ pat @ rest"
    show False
    proof (cases pre)
      case Nil
      with eq np show ?thesis by (simp add: prefix_def)
    next
      case (Cons p ps)
      with eq Cons.IH [OF n, of ps] show ?thesis by simp
    qed
  qed
qed

section \<open>Generic facts\<close>

lemma bind_Some_conv:
  "(Option.bind m f = Some y) \<longleftrightarrow> (\<exists>x. m = Some x \<and> f x = Some y)"
  by (cases m) auto

lemma bind_SomeE:
  assumes "Option.bind m f = Some y"
  obtains x where "m = Some x" "f x = Some y"
  using assms by (cases m) auto

text \<open>
  Congruences for evaluating a definition on a concrete input with \<open>simp\<close>: the continuation of a
  bind, a let or a case is looked at only once its argument is a value.
\<close>

lemma bind_weak_cong: "m = m' \<Longrightarrow> Option.bind m f = Option.bind m' f"
  by simp

lemmas eval_congs = bind_weak_cong let_weak_cong prod.case_cong_weak

end
