(* ===== verification/Posix.thy ===== *)
theory Posix
  imports Judge_Prelude
begin

text \<open>
  The operating-system interface the program runs on. The kernel is not part of the repository:
  it is a parameter \<open>K\<close> of every definition that makes a system call, a function from a call and
  the kernel's state (of an arbitrary type) to a reply and the next state. What this theory fixes
  is the calling convention: which calls the program makes, how a reply is read (\<open>-1\<close> and
  \<open>errno\<close>), the \<open>do .. while (r == -1 && errno == EINTR)\<close> idiom, and the wait-status macros
  of \<open>sys/wait.h\<close>. A process carries a log of the calls it made with their replies; the
  ordering and resource theorems of the component theories are statements about that log.
\<close>

unbundle bit_operations_syntax

section \<open>Constants\<close>

abbreviation (input) EPERM :: cint where "EPERM \<equiv> 1"
abbreviation (input) ENOENT :: cint where "ENOENT \<equiv> 2"
abbreviation (input) ESRCH :: cint where "ESRCH \<equiv> 3"
abbreviation (input) EINTR :: cint where "EINTR \<equiv> 4"
abbreviation (input) EIO :: cint where "EIO \<equiv> 5"
abbreviation (input) EACCES :: cint where "EACCES \<equiv> 13"
abbreviation (input) EBUSY :: cint where "EBUSY \<equiv> 16"
abbreviation (input) EEXIST :: cint where "EEXIST \<equiv> 17"
abbreviation (input) EPIPE :: cint where "EPIPE \<equiv> 32"

abbreviation (input) SIGKILL :: cint where "SIGKILL \<equiv> 9"
abbreviation (input) SIGSEGV :: cint where "SIGSEGV \<equiv> 11"
abbreviation (input) SIGPIPE :: cint where "SIGPIPE \<equiv> 13"
abbreviation (input) SIGXCPU :: cint where "SIGXCPU \<equiv> 24"

abbreviation (input) POLLIN :: "16 word" where "POLLIN \<equiv> 1"
abbreviation (input) POLLOUT :: "16 word" where "POLLOUT \<equiv> 4"
abbreviation (input) POLLERR :: "16 word" where "POLLERR \<equiv> 8"
abbreviation (input) POLLHUP :: "16 word" where "POLLHUP \<equiv> 16"

abbreviation (input) EXIT_SUCCESS :: int where "EXIT_SUCCESS \<equiv> 0"
abbreviation (input) EXIT_FAILURE :: int where "EXIT_FAILURE \<equiv> 1"

datatype open_mode = O_RDONLY | O_WRONLY
datatype wait_mode = Blocking | WNOHANG
datatype clone_flag = CLONE_NEWUSER | CLONE_NEWNS | CLONE_NEWPID
datatype mount_flag = MS_REC | MS_PRIVATE | MS_BIND | MS_REMOUNT | MS_RDONLY
datatype resource = RLIMIT_CPU | RLIMIT_AS
datatype disposition = SIG_IGN | SIG_DFL | SIG_SAVED

section \<open>System calls and replies\<close>

record timeval =
  tv_sec :: u64
  tv_usec :: u64

text \<open>\<open>struct rusage\<close>: the program reads three fields; the other thirteen are carried along.\<close>

record rusage =
  ru_utime :: timeval
  ru_stime :: timeval
  ru_maxrss :: u64
  ru_other :: "u64 list"

definition zero_rusage :: rusage where
  "zero_rusage = \<lparr>ru_utime = \<lparr>tv_sec = 0, tv_usec = 0\<rparr>, ru_stime = \<lparr>tv_sec = 0, tv_usec = 0\<rparr>,
     ru_maxrss = 0, ru_other = replicate 13 0\<rparr>"

datatype syscall =
    Sigaction cint disposition
  | Socketpair
  | Pipe
  | Clock
  | Fork
  | Getpid
  | Getuid
  | Getgid
  | Close int
  | Read int nat
  | Write int bytes
  | Poll "(int \<times> 16 word) list" int
  | Kill int cint
  | Waitpid int wait_mode
  | Wait4 int wait_mode
  | Usleep nat
  | Open string open_mode
  | Creat string nat
  | Access string
  | Mkdir string nat
  | Rmdir string
  | Mkdtemp string
  | Chdir string
  | FcntlGetfd int
  | FcntlSetCloexec int int
  | Unshare clone_flag
  | Mount "string option" string "string option" "mount_flag list"
  | PivotRoot string string
  | Umount2Detach string
  | Dup2 int int
  | Setrlimit resource u64 u64
  | Sigunblock cint
  | Execvp string "string list"

text \<open>
  A reply is a failure with its \<open>errno\<close> or the call's result: a number, the bytes of a
  \<open>read\<close>, the two descriptors of \<open>pipe\<close> or \<open>socketpair\<close>, the pid, status and usage of a
  \<open>wait\<close>, the count and \<open>revents\<close> of a \<open>poll\<close>, the path \<open>mkdtemp\<close> made.
\<close>

datatype reply =
    Fail cint
  | Ret nat
  | Data bytes
  | Fds nat nat
  | Waited nat cint rusage
  | Events nat "(16 word) list"
  | Path string

fun rv :: "reply \<Rightarrow> int" where
  "rv (Fail e) = - 1"
| "rv (Ret n) = int n"
| "rv (Data bs) = int (length bs)"
| "rv (Fds a b) = 0"
| "rv (Waited p st ru) = int p"
| "rv (Events n es) = int n"
| "rv (Path p) = 0"

fun reply_data :: "reply \<Rightarrow> bytes" where
  "reply_data (Data bs) = bs"
| "reply_data _ = []"

fun reply_fds :: "reply \<Rightarrow> int \<times> int" where
  "reply_fds (Fds a b) = (int a, int b)"
| "reply_fds _ = (- 1, - 1)"

fun reply_status :: "reply \<Rightarrow> cint" where
  "reply_status (Waited p st ru) = st"
| "reply_status _ = 0"

fun reply_rusage :: "reply \<Rightarrow> rusage" where
  "reply_rusage (Waited p st ru) = ru"
| "reply_rusage _ = zero_rusage"

fun reply_path :: "reply \<Rightarrow> string" where
  "reply_path (Path p) = p"
| "reply_path _ = []"

text \<open>The \<open>revents\<close> a poll left in entry \<open>i\<close> of its array.\<close>

fun revents :: "reply \<Rightarrow> nat \<Rightarrow> 16 word" where
  "revents (Events n es) i = (if i < length es then es ! i else 0)"
| "revents _ i = 0"

definition has_flag :: "16 word \<Rightarrow> 16 word \<Rightarrow> bool" where
  "has_flag ev m \<longleftrightarrow> ev AND m \<noteq> 0"

section \<open>Processes\<close>

type_synonym 'w kernel = "syscall \<Rightarrow> 'w \<Rightarrow> reply \<times> 'w"
type_synonym call_log = "(syscall \<times> reply) list"

text \<open>
  A running process: the kernel's state as it sees it, its \<open>errno\<close>, the static counter of
  \<open>ProcessRunner::generateExecutionId\<close>, and the log of the calls it has made, oldest first.
\<close>

record 'w proc =
  world :: 'w
  errno :: cint
  exec_counter :: u64
  calls :: call_log

text \<open>One system call: a failing call sets \<open>errno\<close>, a successful one leaves it alone.\<close>

definition sys :: "'w kernel \<Rightarrow> syscall \<Rightarrow> 'w proc \<Rightarrow> reply \<times> 'w proc" where
  "sys K c s =
     (case K c (world s) of (r, w) \<Rightarrow>
        (r, s\<lparr>world := w,
              errno := (case r of Fail e \<Rightarrow> e | _ \<Rightarrow> errno s),
              calls := calls s @ [(c, r)]\<rparr>))"

text \<open>A call whose result the program ignores.\<close>

definition do_sys :: "'w kernel \<Rightarrow> syscall \<Rightarrow> 'w proc \<Rightarrow> 'w proc" where
  "do_sys K c s = snd (sys K c s)"

text \<open>The idiom \<open>do { r = call(..); } while (r == -1 && errno == EINTR)\<close>.\<close>

partial_function (option) retry :: "'w kernel \<Rightarrow> syscall \<Rightarrow> 'w proc \<Rightarrow> (reply \<times> 'w proc) option"
where
  "retry K c s =
     (case sys K c s of (r, s') \<Rightarrow>
        if rv r = - 1 \<and> errno s' = EINTR then retry K c s' else Some (r, s'))"

declare retry.simps [code]

section \<open>Wait statuses\<close>

definition WTERMSIG :: "cint \<Rightarrow> cint" where
  "WTERMSIG st = st AND 0x7f"

definition WIFEXITED :: "cint \<Rightarrow> bool" where
  "WIFEXITED st \<longleftrightarrow> WTERMSIG st = 0"

definition WEXITSTATUS :: "cint \<Rightarrow> cint" where
  "WEXITSTATUS st = drop_bit 8 (st AND 0xff00)"

text \<open>\<open>((signed char) (((status) & 0x7f) + 1) >> 1) > 0\<close>\<close>

definition WIFSIGNALED :: "cint \<Rightarrow> bool" where
  "WIFSIGNALED st \<longleftrightarrow> 0 < sint (signed_drop_bit 1 (ucast (WTERMSIG st + 1) :: 8 word))"

lemma WTERMSIG_bound: "unat (WTERMSIG st) < 128"
proof -
  have "WTERMSIG st \<le> 0x7f" unfolding WTERMSIG_def by (rule word_and_le1)
  then have "unat (WTERMSIG st) \<le> unat (0x7f :: cint)" by (simp only: word_le_nat_alt)
  then show ?thesis by simp
qed

lemma WIFSIGNALED_iff: "WIFSIGNALED st \<longleftrightarrow> WTERMSIG st \<noteq> 0 \<and> WTERMSIG st \<noteq> 0x7f"
proof -
  define v where "v = unat (WTERMSIG st)"
  have v: "v < 128" using WTERMSIG_bound by (simp add: v_def)
  have w: "WTERMSIG st = word_of_nat v" by (simp add: v_def)
  have "\<forall>v \<in> set [0..<128]. (0 < sint (signed_drop_bit 1 (ucast (word_of_nat v + 1 :: cint) :: 8 word)))
     = (word_of_nat v \<noteq> (0 :: cint) \<and> word_of_nat v \<noteq> (0x7f :: cint))"
    by code_simp
  with v w show ?thesis by (simp add: WIFSIGNALED_def)
qed

section \<open>Facts about single calls\<close>

lemma sys_simps [simp, log_simps]:
  "fst (sys K c s) = fst (K c (world s))"
  "calls (snd (sys K c s)) = calls s @ [(c, fst (K c (world s)))]"
  "world (snd (sys K c s)) = snd (K c (world s))"
  "exec_counter (snd (sys K c s)) = exec_counter s"
  by (simp_all add: sys_def split: prod.splits)

lemma calls_do_sys [simp, log_simps]: "calls (do_sys K c s) = calls s @ [(c, fst (K c (world s)))]"
  by (simp add: do_sys_def)

lemma sys_calls: "sys K c s = (r, s') \<Longrightarrow> calls s' = calls s @ [(c, r)]"
  by (metis fst_conv snd_conv sys_simps(1,2))

lemma sys_world: "sys K c s = (r, s') \<Longrightarrow> K c (world s) = (r, world s')"
  by (auto simp: sys_def split: prod.splits)

lemma errno_sys_fail: "sys K c s = (Fail e, s') \<Longrightarrow> errno s' = e"
  by (auto simp: sys_def split: prod.splits)

lemma rv_eq_minus_one: "rv r = - 1 \<longleftrightarrow> (\<exists>e. r = Fail e)"
  by (cases r) auto

text \<open>The log only grows: \<open>s\<close> made the calls \<open>new\<close> to become \<open>s'\<close>.\<close>

definition emits :: "'w proc \<Rightarrow> call_log \<Rightarrow> 'w proc \<Rightarrow> bool" where
  "emits s new s' \<longleftrightarrow> calls s' = calls s @ new"

lemma emits_refl [intro, simp]: "emits s [] s"
  by (simp add: emits_def)

lemma emits_trans: "emits s xs t \<Longrightarrow> emits t ys u \<Longrightarrow> emits s (xs @ ys) u"
  by (simp add: emits_def)

lemma emits_sys: "sys K c s = (r, s') \<Longrightarrow> emits s [(c, r)] s'"
  by (simp add: emits_def sys_calls)

text \<open>Every call between \<open>s\<close> and \<open>s'\<close> satisfies \<open>Q\<close>.\<close>

definition only :: "(syscall \<Rightarrow> bool) \<Rightarrow> 'w proc \<Rightarrow> 'w proc \<Rightarrow> bool" where
  "only Q s s' \<longleftrightarrow> (\<exists>new. emits s new s' \<and> (\<forall>x \<in> set new. Q (fst x)))"

lemma only_refl [intro, simp]: "only Q s s"
  unfolding only_def by (rule exI [of _ "[]"]) simp

lemma only_trans [trans]: "only Q s t \<Longrightarrow> only Q t u \<Longrightarrow> only Q s u"
  unfolding only_def by (metis UnE emits_trans set_append)

lemma only_sys: "Q c \<Longrightarrow> sys K c s = (r, s') \<Longrightarrow> only Q s s'"
  unfolding only_def using emits_sys by fastforce

lemma only_mono: "only Q s t \<Longrightarrow> (\<And>c. Q c \<Longrightarrow> R c) \<Longrightarrow> only R s t"
  unfolding only_def by blast

text \<open>The bytes a log put on a descriptor, and those it took from one.\<close>

definition put_on :: "int \<Rightarrow> call_log \<Rightarrow> bytes" where
  "put_on fd log = concat (map (\<lambda>(c, r). case c of
     Write fd' bs \<Rightarrow> if fd' = fd then take (nat (rv r)) bs else [] | _ \<Rightarrow> []) log)"

definition got_from :: "int \<Rightarrow> call_log \<Rightarrow> bytes" where
  "got_from fd log = concat (map (\<lambda>(c, r). case c of
     Read fd' n \<Rightarrow> if fd' = fd then reply_data r else [] | _ \<Rightarrow> []) log)"

lemma put_on_simps [simp, log_simps]:
  "put_on fd [] = []"
  "put_on fd (xs @ ys) = put_on fd xs @ put_on fd ys"
  "put_on fd ((Write fd' bs, r) # log) = (if fd' = fd then take (nat (rv r)) bs else []) @ put_on fd log"
  by (simp_all add: put_on_def)

lemma got_from_simps [simp, log_simps]:
  "got_from fd [] = []"
  "got_from fd (xs @ ys) = got_from fd xs @ got_from fd ys"
  "got_from fd ((Read fd' n, r) # log) = (if fd' = fd then reply_data r else []) @ got_from fd log"
  by (simp_all add: got_from_def)

definition reads_from :: "int \<Rightarrow> syscall \<Rightarrow> bool" where
  "reads_from fd c \<longleftrightarrow> (case c of Read fd' n \<Rightarrow> fd' = fd | _ \<Rightarrow> False)"

definition writes_to :: "int \<Rightarrow> syscall \<Rightarrow> bool" where
  "writes_to fd c \<longleftrightarrow> (case c of Write fd' bs \<Rightarrow> fd' = fd | _ \<Rightarrow> False)"

lemma got_from_none: "\<forall>x \<in> set log. \<not> reads_from fd (fst x) \<Longrightarrow> got_from fd log = []"
  by (auto simp: got_from_def reads_from_def split: syscall.splits)

lemma put_on_none: "\<forall>x \<in> set log. \<not> writes_to fd (fst x) \<Longrightarrow> put_on fd log = []"
  by (auto simp: put_on_def writes_to_def split: syscall.splits)

section \<open>Steps that succeeded\<close>

text \<open>The calls of a log that did not fail, in order.\<close>

definition succeeded :: "call_log \<Rightarrow> syscall list" where
  "succeeded log = map fst (filter (\<lambda>x. rv (snd x) \<noteq> - 1) log)"

lemma succeeded_simps [simp, log_simps]:
  "succeeded [] = []"
  "succeeded (xs @ ys) = succeeded xs @ succeeded ys"
  "succeeded ((c, r) # log) = (if rv r \<noteq> - 1 then [c] else []) @ succeeded log"
  by (simp_all add: succeeded_def)

text \<open>Between \<open>s\<close> and \<open>s'\<close> the calls \<open>cs\<close> succeeded, in this order, among possibly others.\<close>

definition performed :: "syscall list \<Rightarrow> 'w proc \<Rightarrow> 'w proc \<Rightarrow> bool" where
  "performed cs s s' \<longleftrightarrow> (\<exists>new. emits s new s' \<and> subseq cs (succeeded new))"

lemma performed_trans [trans]:
  assumes "performed xs s t" "performed ys t u"
  shows "performed (xs @ ys) s u"
proof -
  obtain a b where "emits s a t" "subseq xs (succeeded a)" "emits t b u" "subseq ys (succeeded b)"
    using assms unfolding performed_def by blast
  then show ?thesis unfolding performed_def
    by (intro exI [of _ "a @ b"]) (auto intro: emits_trans list_emb_append_mono)
qed

lemma performed_sys: "sys K c s = (r, s') \<Longrightarrow> rv r \<noteq> - 1 \<Longrightarrow> performed [c] s s'"
  unfolding performed_def using emits_sys by fastforce

lemma performed_Nil: "only Q s s' \<Longrightarrow> performed [] s s'"
  unfolding performed_def only_def by blast

lemma performed_do_sys: "performed [] s (do_sys K c s)"
  unfolding performed_def emits_def by auto

lemma performed_after: "performed xs s t \<Longrightarrow> performed [] t u \<Longrightarrow> performed xs s u"
  using performed_trans by fastforce

lemma performed_before: "performed [] s t \<Longrightarrow> performed xs t u \<Longrightarrow> performed xs s u"
  using performed_trans by fastforce

lemma only_do_sys: "Q c \<Longrightarrow> only Q s (do_sys K c s)"
  unfolding only_def emits_def by auto

section \<open>The retry loop\<close>

text \<open>
  A retried call returns a reply that is not an interruption, after any number of interrupted
  attempts at the same call.
\<close>

lemma retry_unfold:
  "retry K c s =
     (case sys K c s of (r, s') \<Rightarrow> if r = Fail EINTR then retry K c s' else Some (r, s'))"
proof (cases "sys K c s")
  case (Pair r s')
  then have "rv r = - 1 \<and> errno s' = EINTR \<longleftrightarrow> r = Fail EINTR"
    by (auto simp: rv_eq_minus_one errno_sys_fail)
  with Pair show ?thesis by (subst retry.simps) simp
qed

lemma retry_Some:
  assumes "retry K c s = Some (r, s')"
  shows "r \<noteq> Fail EINTR \<and> (\<exists>n. emits s (replicate n (c, Fail EINTR) @ [(c, r)]) s')"
proof -
  define P where "P = (\<lambda>(K' :: 'a kernel) c' (t :: 'a proc) (x :: reply \<times> 'a proc).
     fst x \<noteq> Fail EINTR \<and> (\<exists>n. emits t (replicate n (c', Fail EINTR) @ [(c', fst x)]) (snd x)))"
  have "P K c s (r, s')"
  proof (rule retry.raw_induct [where P = P, OF _ assms])
    fix f :: "'a kernel \<Rightarrow> syscall \<Rightarrow> 'a proc \<Rightarrow> (reply \<times> 'a proc) option" and K c s x
    assume IH: "\<And>K c s x. f K c s = Some x \<Longrightarrow> P K c s x"
      and eq: "(case sys K c s of (r, s') \<Rightarrow>
                  if rv r = - 1 \<and> errno s' = EINTR then f K c s' else Some (r, s')) = Some x"
    obtain r s' where sys: "sys K c s = (r, s')" by fastforce
    show "P K c s x"
    proof (cases "r = Fail EINTR")
      case True
      with sys eq have "f K c s' = Some x" by (simp add: errno_sys_fail)
      then obtain n where n: "fst x \<noteq> Fail EINTR"
        "emits s' (replicate n (c, Fail EINTR) @ [(c, fst x)]) (snd x)"
        using IH unfolding P_def by blast
      have "emits s (replicate (Suc n) (c, Fail EINTR) @ [(c, fst x)]) (snd x)"
        using emits_trans [OF emits_sys [OF sys] n(2)] True by simp
      with n(1) show ?thesis unfolding P_def by blast
    next
      case False
      with sys eq have "x = (r, s')"
        by (auto simp: rv_eq_minus_one dest: errno_sys_fail split: if_splits)
      with False emits_sys [OF sys] show ?thesis
        unfolding P_def by (auto intro: exI [of _ 0])
    qed
  qed
  then show ?thesis by (simp add: P_def)
qed

lemma retry_only: "retry K c s = Some (r, s') \<Longrightarrow> Q c \<Longrightarrow> only Q s s'"
  unfolding only_def using retry_Some [of K c s r s']
  by fastforce

lemma performed_retry: "retry K c s = Some (r, s') \<Longrightarrow> rv r \<noteq> - 1 \<Longrightarrow> performed [c] s s'"
proof -
  assume "retry K c s = Some (r, s')" "rv r \<noteq> - 1"
  moreover from this obtain n where "emits s (replicate n (c, Fail EINTR) @ [(c, r)]) s'"
    using retry_Some by blast
  ultimately show ?thesis unfolding performed_def
    by (intro exI [of _ "replicate n (c, Fail EINTR) @ [(c, r)]"]) auto
qed

text \<open>
  A kernel is patient, by a measure on its states, when the measure never grows and every
  interrupted call lowers it: signals do not interrupt a process for ever.
\<close>

definition patient :: "'w kernel \<Rightarrow> ('w \<Rightarrow> nat) \<Rightarrow> bool" where
  "patient K m \<longleftrightarrow>
     (\<forall>c w. m (snd (K c w)) \<le> m w \<and> (fst (K c w) = Fail EINTR \<longrightarrow> m (snd (K c w)) < m w))"

lemma patient_le: "patient K m \<Longrightarrow> m (snd (K c w)) \<le> m w"
  by (simp add: patient_def)

lemma patient_sys: "patient K m \<Longrightarrow> sys K c s = (r, s') \<Longrightarrow>
  m (world s') \<le> m (world s) \<and> (r = Fail EINTR \<longrightarrow> m (world s') < m (world s))"
  unfolding patient_def by (metis fst_conv snd_conv sys_simps(1,3))

lemma retry_returns:
  assumes "patient K m"
  shows "\<exists>r s'. retry K c s = Some (r, s') \<and> m (world s') \<le> m (world s)"
proof (induction "m (world s)" arbitrary: s rule: less_induct)
  case less
  obtain r s1 where sys: "sys K c s = (r, s1)" by fastforce
  note step = patient_sys [OF assms sys]
  show ?case
  proof (cases "r = Fail EINTR")
    case True
    with step less.hyps [of s1] obtain r' s' where
      "retry K c s1 = Some (r', s')" "m (world s') \<le> m (world s1)" by auto
    with True sys step show ?thesis
      by (intro exI [of _ r'] exI [of _ s']) (simp add: retry_unfold [of K c s])
  next
    case False
    with sys step show ?thesis by (simp add: retry_unfold [of K c s])
  qed
qed

text \<open>
  A kernel that answers calls from a list of replies, whatever they are, and with a fixed reply once
  the list is used up. It stands for one run of the real kernel and makes every definition of the
  development executable on a concrete input.
\<close>

fun scripted :: "reply \<Rightarrow> reply list kernel" where
  "scripted d c [] = (d, [])"
| "scripted d c (r # rs) = (r, rs)"

lemma scripted_patient: "d \<noteq> Fail EINTR \<Longrightarrow> patient (scripted d) length"
proof -
  assume d: "d \<noteq> Fail EINTR"
  have "length (snd (scripted d c w)) \<le> length w \<and>
     (fst (scripted d c w) = Fail EINTR \<longrightarrow> length (snd (scripted d c w)) < length w)" for c w
    using d by (cases w) auto
  then show ?thesis by (simp add: patient_def)
qed

definition boot :: "'w \<Rightarrow> 'w proc" where
  "boot w = \<lparr>world = w, errno = 0, exec_counter = 1, calls = []\<rparr>"

text \<open>
  Rules for evaluating a program on a concrete kernel with \<open>simp\<close>: the log stays symbolic, only the
  kernel's state and \<open>errno\<close> are computed.
\<close>

named_theorems sys_eval \<open>evaluation of system calls\<close>

lemma sys_evaluate [sys_eval]: "sys K c s = (fst (K c (world s)), do_sys K c s)"
  by (simp add: do_sys_def sys_def split: prod.splits)

lemma world_do_sys [sys_eval]: "world (do_sys K c s) = snd (K c (world s))"
  by (simp add: do_sys_def)

lemma errno_do_sys [sys_eval]:
  "errno (do_sys K c s) = (case fst (K c (world s)) of Fail e \<Rightarrow> e | _ \<Rightarrow> errno s)"
  by (simp add: do_sys_def sys_def split: prod.splits)

lemma boot_simps [sys_eval]: "world (boot w) = w" "errno (boot w) = 0" "exec_counter (boot w) = 1" "calls (boot w) = []"
  by (simp_all add: boot_def)

declare retry_unfold [sys_eval] Let_def [sys_eval]

text \<open>A kernel without state that grants every request: writes are complete, reads fill the buffer.\<close>

fun obliging :: "unit kernel" where
  "obliging (Write fd bs) w = (Ret (length bs), w)"
| "obliging (Read fd n) w = (Data (replicate n 1), w)"
| "obliging c w = (Ret 0, w)"

end
