(* ===== verification/Execution_Types.thy ===== *)
theory Execution_Types
  imports Posix
begin

text \<open>
  The data the components exchange: the enumerations and structs of \<open>include/common\<close>,
  \<open>include/judge/judge_result.hpp\<close>, \<open>include/compiler/compile_result.hpp\<close> and the verdict
  printer of \<open>src/verdict/verdict.cpp\<close>. Contents of streams (\<open>std::string\<close> used as a byte
  container) are \<open>bytes\<close>; paths and arguments are strings.
\<close>

section \<open>Verdicts\<close>

datatype Verdict =
    Accepted
  | WrongAnswer
  | RuntimeError
  | TimeLimitExceeded
  | MemoryLimitExceeded
  | CompilationError
  | InternalError

fun to_string :: "Verdict \<Rightarrow> string" where
  "to_string Accepted = ''Accepted''"
| "to_string WrongAnswer = ''Wrong Answer''"
| "to_string RuntimeError = ''Runtime Error''"
| "to_string _ = ''Unkown Verdict''"

instantiation Verdict :: enum
begin

definition enum_Verdict :: "Verdict list" where
  "enum_Verdict = [Accepted, WrongAnswer, RuntimeError, TimeLimitExceeded, MemoryLimitExceeded,
     CompilationError, InternalError]"

definition enum_all_Verdict :: "(Verdict \<Rightarrow> bool) \<Rightarrow> bool" where
  "enum_all_Verdict P \<longleftrightarrow> list_all P enum_class.enum"

definition enum_ex_Verdict :: "(Verdict \<Rightarrow> bool) \<Rightarrow> bool" where
  "enum_ex_Verdict P \<longleftrightarrow> list_ex P enum_class.enum"

instance
proof
  show univ: "(UNIV :: Verdict set) = set enum_class.enum"
    using Verdict.exhaust by (auto simp: enum_Verdict_def)
  show "distinct (enum_class.enum :: Verdict list)"
    by (simp add: enum_Verdict_def)
  show "enum_class.enum_all P = Ball UNIV P" for P :: "Verdict \<Rightarrow> bool"
    unfolding enum_all_Verdict_def univ by (simp add: list_all_iff)
  show "enum_class.enum_ex P = Bex UNIV P" for P :: "Verdict \<Rightarrow> bool"
    unfolding enum_ex_Verdict_def univ by (simp add: list_ex_iff)
qed

end

section \<open>Execution states, limits and results\<close>

datatype ExecutionState =
    Created
  | Starting
  | Running
  | Finished
  | TimedOut
  | Signaled
  | Failed
  | SandboxFailed
  | RunnerFailed
  | Cancelled

datatype ExecutionStatus =
    Completed
  | TimedOut
  | Signaled
  | SandboxFailure
  | RunnerFailure

datatype NetworkPolicy = Disabled | LoopbackOnly | Enabled
datatype FileSystemPolicy = Restricted
datatype SyscallPolicy = Standard

text \<open>\<open>cpu_limit\<close> in seconds, \<open>wall_limit\<close> in milliseconds, \<open>memory_limit\<close> in bytes.\<close>

record ExecutionLimits =
  cpu_limit :: int
  wall_limit :: int
  memory_limit :: u64

record SandboxConfig =
  network_policy :: NetworkPolicy
  filesystem_policy :: FileSystemPolicy
  syscall_policy :: SyscallPolicy
  max_processes :: u64

definition default_SandboxConfig :: SandboxConfig where
  "default_SandboxConfig =
     \<lparr>network_policy = Disabled, filesystem_policy = Restricted, syscall_policy = Standard,
      max_processes = 20\<rparr>"

record ExecutionConfig =
  limit :: ExecutionLimits
  sandbox_config :: SandboxConfig

record ExecutionResult =
  status :: ExecutionStatus
  state :: ExecutionState
  exit_code :: int
  stdout_output :: bytes
  stderr_output :: bytes
  wall_time :: int
  cpu_time :: int
  memory_usage_bytes :: u64
  terminated_by_signal :: bool
  wall_time_limit_exceeded :: bool
  signal_number :: int

definition default_ExecutionResult :: ExecutionResult where
  "default_ExecutionResult =
     \<lparr>status = RunnerFailure, state = Failed, exit_code = 1, stdout_output = [], stderr_output = [],
      wall_time = 0, cpu_time = 0, memory_usage_bytes = 0, terminated_by_signal = False,
      wall_time_limit_exceeded = False, signal_number = 0\<rparr>"

record JudgeResult =
  verdict :: Verdict
  message :: string

record CompileResult =
  compile_exit_code :: int
  compile_stderr :: bytes
  executable_path :: string

section \<open>The process runner interface\<close>

text \<open>
  \<open>IProcessRunner::run\<close>: executable, arguments, standard input and limits to an execution
  result, over the state of the calling process; \<open>None\<close> when the call does not return.
\<close>

type_synonym 's process_runner =
  "string \<Rightarrow> string list \<Rightarrow> bytes \<Rightarrow> ExecutionConfig \<Rightarrow> 's \<Rightarrow> (ExecutionResult \<times> 's) option"

type_synonym judge = "ExecutionResult \<Rightarrow> bytes \<Rightarrow> JudgeResult"

end
