(* ===== verification/Sandbox_Protocol.thy ===== *)
theory Sandbox_Protocol
  imports Posix
begin

text \<open>
  \<open>include/common/sandbox_protocol.hpp\<close> and \<open>src/common/sandbox_protocol.cpp\<close>: the messages
  the runner, the supervisor and the sandboxed child exchange, their byte images (x86-64,
  little-endian), and the loops that move them over a descriptor.
\<close>

section \<open>Message data\<close>

datatype SandboxSetupStage =
    NoStage
  | Namespace
  | Filesystem
  | Identity
  | Cgroup
  | Capabilities
  | Seccomp
  | ProcessCreation
  | StandardIO
  | ResourceLimit
  | Exec

fun stage_code :: "SandboxSetupStage \<Rightarrow> cint" where
  "stage_code NoStage = 0"
| "stage_code Namespace = 1"
| "stage_code Filesystem = 2"
| "stage_code Identity = 3"
| "stage_code Cgroup = 4"
| "stage_code Capabilities = 5"
| "stage_code Seccomp = 6"
| "stage_code ProcessCreation = 7"
| "stage_code StandardIO = 8"
| "stage_code ResourceLimit = 9"
| "stage_code Exec = 10"

datatype SandboxMessageType = Ready | SetupFailed | Terminated | Terminate

fun msg_code :: "SandboxMessageType \<Rightarrow> cint" where
  "msg_code Ready = 0"
| "msg_code SetupFailed = 1"
| "msg_code Terminated = 2"
| "msg_code Terminate = 3"

record SandboxMessageHeader =
  msg_type :: cint
  payload_size :: u32

record SandboxReadyPayload =
  ready_host_pid :: cint
  ready_namespace_pid :: cint
  ready_execution_id :: u64

record SandboxTerminatedPayload =
  wait_status :: cint
  usage :: rusage

record SandboxSetupFailedPayload =
  failed_stage :: cint
  error_code :: cint

text \<open>The result of reading the status pipe, with the out-parameter the source fills in that case.\<close>

datatype StatusPipeReadResult =
    Payload SandboxSetupFailedPayload
  | Eof
  | Error
  | WaitStatus cint

definition TAG :: byte where
  "TAG = 0xFF"

section \<open>Byte images\<close>

definition enc_header :: "SandboxMessageHeader \<Rightarrow> bytes" where
  "enc_header h = enc32 (msg_type h) @ enc32 (payload_size h)"

definition dec_header :: "bytes \<Rightarrow> SandboxMessageHeader" where
  "dec_header bs = \<lparr>msg_type = dec32 (take 4 bs), payload_size = dec32 (take 4 (drop 4 bs))\<rparr>"

definition enc_ready :: "SandboxReadyPayload \<Rightarrow> bytes" where
  "enc_ready p = enc32 (ready_host_pid p) @ enc32 (ready_namespace_pid p) @ enc64 (ready_execution_id p)"

definition dec_ready :: "bytes \<Rightarrow> SandboxReadyPayload" where
  "dec_ready bs = \<lparr>ready_host_pid = dec32 (take 4 bs), ready_namespace_pid = dec32 (take 4 (drop 4 bs)),
     ready_execution_id = dec64 (take 8 (drop 8 bs))\<rparr>"

definition enc_setup_failed :: "SandboxSetupFailedPayload \<Rightarrow> bytes" where
  "enc_setup_failed p = enc32 (failed_stage p) @ enc32 (error_code p)"

definition dec_setup_failed :: "bytes \<Rightarrow> SandboxSetupFailedPayload" where
  "dec_setup_failed bs = \<lparr>failed_stage = dec32 (take 4 bs), error_code = dec32 (take 4 (drop 4 bs))\<rparr>"

definition enc_timeval :: "timeval \<Rightarrow> bytes" where
  "enc_timeval t = enc64 (tv_sec t) @ enc64 (tv_usec t)"

definition dec_timeval :: "bytes \<Rightarrow> timeval" where
  "dec_timeval bs = \<lparr>tv_sec = dec64 (take 8 bs), tv_usec = dec64 (take 8 (drop 8 bs))\<rparr>"

fun dec64s :: "nat \<Rightarrow> bytes \<Rightarrow> u64 list" where
  "dec64s 0 bs = []"
| "dec64s (Suc n) bs = dec64 (take 8 bs) # dec64s n (drop 8 bs)"

definition enc_rusage :: "rusage \<Rightarrow> bytes" where
  "enc_rusage u = enc_timeval (ru_utime u) @ enc_timeval (ru_stime u) @ enc64 (ru_maxrss u)
     @ concat (map enc64 (ru_other u))"

definition dec_rusage :: "bytes \<Rightarrow> rusage" where
  "dec_rusage bs = \<lparr>ru_utime = dec_timeval (take 16 bs), ru_stime = dec_timeval (take 16 (drop 16 bs)),
     ru_maxrss = dec64 (take 8 (drop 32 bs)), ru_other = dec64s 13 (drop 40 bs)\<rparr>"

definition valid_rusage :: "rusage \<Rightarrow> bool" where
  "valid_rusage u \<longleftrightarrow> length (ru_other u) = 13"

text \<open>Four bytes of padding align \<open>struct rusage\<close> to eight; the reader skips them.\<close>

definition enc_terminated :: "SandboxTerminatedPayload \<Rightarrow> bytes" where
  "enc_terminated p = enc32 (wait_status p) @ replicate 4 0 @ enc_rusage (usage p)"

definition dec_terminated :: "bytes \<Rightarrow> SandboxTerminatedPayload" where
  "dec_terminated bs = \<lparr>wait_status = dec32 (take 4 bs), usage = dec_rusage (drop 8 bs)\<rparr>"

definition sizeof_header :: nat where "sizeof_header = 8"
definition sizeof_ready :: nat where "sizeof_ready = 16"
definition sizeof_setup_failed :: nat where "sizeof_setup_failed = 8"
definition sizeof_terminated :: nat where "sizeof_terminated = 152"
definition sizeof_int :: nat where "sizeof_int = 4"

lemmas sizeof_defs = sizeof_header_def sizeof_ready_def sizeof_setup_failed_def
  sizeof_terminated_def sizeof_int_def

section \<open>Moving bytes\<close>

text \<open>\<open>write_all\<close>: the argument is what is still to be written, \<open>data + total_written\<close>.\<close>

partial_function (option) write_all ::
  "'w kernel \<Rightarrow> int \<Rightarrow> bytes \<Rightarrow> 'w proc \<Rightarrow> (bool \<times> 'w proc) option"
where
  "write_all K fd bs s =
     (if bs = [] then Some (True, s)
      else case sys K (Write fd bs) s of (r, s') \<Rightarrow>
        if rv r = - 1 then
          (if errno s' = EINTR then write_all K fd bs s' else Some (False, s'))
        else if rv r = 0 then Some (False, s')
        else write_all K fd (drop (nat (rv r)) bs) s')"

declare write_all.simps [code]

text \<open>
  The loop of \<open>read_all\<close>: \<open>n\<close> bytes still to come (\<open>size - total_read\<close>), \<open>got\<close> the part of
  the buffer already filled. On success the second component is the filled buffer.
\<close>

partial_function (option) read_loop ::
  "'w kernel \<Rightarrow> int \<Rightarrow> nat \<Rightarrow> bytes \<Rightarrow> 'w proc \<Rightarrow> ((bool \<times> bytes) \<times> 'w proc) option"
where
  "read_loop K fd n got s =
     (if n = 0 then Some ((True, got), s)
      else case sys K (Read fd n) s of (r, s') \<Rightarrow>
        if rv r = - 1 then
          (if errno s' = EINTR then read_loop K fd n got s' else Some ((False, got), s'))
        else if rv r = 0 then Some ((False, got), s')
        else read_loop K fd (n - nat (rv r)) (got @ reply_data r) s')"

declare read_loop.simps [code]

definition read_all ::
  "'w kernel \<Rightarrow> int \<Rightarrow> nat \<Rightarrow> 'w proc \<Rightarrow> ((bool \<times> bytes) \<times> 'w proc) option"
where
  "read_all K fd n s = read_loop K fd n [] s"

definition send_message ::
  "'w kernel \<Rightarrow> int \<Rightarrow> SandboxMessageType \<Rightarrow> bytes \<Rightarrow> 'w proc \<Rightarrow> (bool \<times> 'w proc) option"
where
  "send_message K fd ty payload s = do {
     let header = \<lparr>msg_type = msg_code ty, payload_size = word_of_nat (length payload)\<rparr>;
     (sent, s) \<leftarrow> write_all K fd (enc_header header) s;
     if \<not> sent then Some (False, s)
     else if payload_size header = 0 then Some (True, s)
     else write_all K fd payload s
   }"

text \<open>\<open>None\<close> inside the pair: the source returned \<open>false\<close>. Otherwise the header and the payload.\<close>

definition receive_message ::
  "'w kernel \<Rightarrow> int \<Rightarrow> nat \<Rightarrow> 'w proc \<Rightarrow> ((SandboxMessageHeader \<times> bytes) option \<times> 'w proc) option"
where
  "receive_message K fd payload_capacity s = do {
     ((ok, bs), s) \<leftarrow> read_all K fd sizeof_header s;
     if \<not> ok then Some (None, s)
     else let header = dec_header bs in
       if unat (payload_size header) > payload_capacity then Some (None, s)
       else if payload_size header = 0 then Some (Some (header, []), s)
       else do {
         ((ok, payload), s) \<leftarrow> read_all K fd (unat (payload_size header)) s;
         Some (if ok then Some (header, payload) else None, s)
       }
   }"

text \<open>\<open>read_setup_failure\<close>: end of file before the first byte is \<open>Eof\<close>, later it is \<open>Error\<close>.\<close>

partial_function (option) setup_failure_loop ::
  "'w kernel \<Rightarrow> int \<Rightarrow> nat \<Rightarrow> bytes \<Rightarrow> 'w proc \<Rightarrow> (StatusPipeReadResult \<times> 'w proc) option"
where
  "setup_failure_loop K fd n got s =
     (if n = 0 then Some (Payload (dec_setup_failed got), s)
      else case sys K (Read fd n) s of (r, s') \<Rightarrow>
        if rv r = - 1 then
          (if errno s' = EINTR then setup_failure_loop K fd n got s' else Some (Error, s'))
        else if rv r = 0 then
          (if n = sizeof_setup_failed then Some (Eof, s') else Some (Error, s'))
        else setup_failure_loop K fd (n - nat (rv r)) (got @ reply_data r) s')"

declare setup_failure_loop.simps [code]

definition read_setup_failure ::
  "'w kernel \<Rightarrow> int \<Rightarrow> 'w proc \<Rightarrow> (StatusPipeReadResult \<times> 'w proc) option"
where
  "read_setup_failure K fd s = setup_failure_loop K fd sizeof_setup_failed [] s"

definition write_wait_status :: "'w kernel \<Rightarrow> int \<Rightarrow> cint \<Rightarrow> 'w proc \<Rightarrow> (bool \<times> 'w proc) option"
where
  "write_wait_status K fd st s = do {
     (sent, s) \<leftarrow> write_all K fd [TAG] s;
     if \<not> sent then Some (False, s) else write_all K fd (enc32 st) s
   }"

text \<open>
  \<open>read_status_pipe\<close>: the first byte tells a forwarded wait status from a setup failure, whose
  remaining bytes are then read by the same loop as \<open>read_all\<close>.
\<close>

definition read_status_pipe ::
  "'w kernel \<Rightarrow> int \<Rightarrow> 'w proc \<Rightarrow> (StatusPipeReadResult \<times> 'w proc) option"
where
  "read_status_pipe K fd s = do {
     (r, s) \<leftarrow> retry K (Read fd 1) s;
     if rv r = - 1 then Some (Error, s)
     else if rv r = 0 then Some (Eof, s)
     else let first = (case reply_data r of [] \<Rightarrow> 0 | b # _ \<Rightarrow> b) in
       if first = TAG then do {
         ((ok, bs), s) \<leftarrow> read_all K fd sizeof_int s;
         Some (if ok then WaitStatus (dec32 bs) else Error, s)
       }
       else do {
         ((ok, bs), s) \<leftarrow> read_loop K fd (sizeof_setup_failed - 1) [first] s;
         Some (if ok then Payload (dec_setup_failed bs) else Error, s)
       }
   }"

section \<open>Codecs\<close>

text \<open>
  What the two ends of a channel rely on: an encoder of fixed width with a left inverse on the
  values that are sent.
\<close>

locale fixed_codec =
  fixes enc :: "'a \<Rightarrow> bytes"
    and dec :: "bytes \<Rightarrow> 'a"
    and width :: nat
    and valid :: "'a \<Rightarrow> bool"
  assumes enc_width: "valid x \<Longrightarrow> length (enc x) = width"
    and dec_enc: "valid x \<Longrightarrow> dec (enc x) = x"
begin

lemma enc_inject: "valid x \<Longrightarrow> valid y \<Longrightarrow> enc x = enc y \<Longrightarrow> x = y"
  by (metis dec_enc)

lemma stream_split: "valid x \<Longrightarrow> dec (take width (enc x @ rest)) = x \<and> drop width (enc x @ rest) = rest"
  using enc_width dec_enc by simp

end

interpretation header_codec: fixed_codec enc_header dec_header sizeof_header "\<lambda>_. True"
  by unfold_locales (simp_all add: enc_header_def dec_header_def sizeof_defs)

interpretation ready_codec: fixed_codec enc_ready dec_ready sizeof_ready "\<lambda>_. True"
  by unfold_locales (simp_all add: enc_ready_def dec_ready_def sizeof_defs)

interpretation setup_failed_codec: fixed_codec enc_setup_failed dec_setup_failed sizeof_setup_failed "\<lambda>_. True"
  by unfold_locales (simp_all add: enc_setup_failed_def dec_setup_failed_def sizeof_defs)

interpretation int_codec: fixed_codec enc32 dec32 sizeof_int "\<lambda>_. True"
  by unfold_locales (simp_all add: sizeof_defs)

lemma length_concat_enc64 [codec_simps]: "length (concat (map enc64 xs)) = 8 * length xs"
  by (induction xs) auto

lemma dec64s_concat [codec_simps]: "dec64s (length xs) (concat (map enc64 xs)) = xs"
  by (induction xs) auto

lemma length_enc_timeval [simp, codec_simps]: "length (enc_timeval t) = 16"
  by (simp add: enc_timeval_def)

lemma dec_enc_timeval [simp, codec_simps]: "dec_timeval (enc_timeval t) = t"
  by (simp add: enc_timeval_def dec_timeval_def)

lemma length_enc_rusage: "valid_rusage u \<Longrightarrow> length (enc_rusage u) = 144"
  by (simp add: enc_rusage_def valid_rusage_def length_concat_enc64)

lemma dec_enc_rusage: "valid_rusage u \<Longrightarrow> dec_rusage (enc_rusage u) = u"
  using dec64s_concat [of "ru_other u"]
  by (simp add: enc_rusage_def dec_rusage_def valid_rusage_def)

interpretation terminated_codec: fixed_codec enc_terminated dec_terminated sizeof_terminated
  "\<lambda>p. valid_rusage (usage p)"
  by unfold_locales
    (simp_all add: enc_terminated_def dec_terminated_def sizeof_defs length_enc_rusage dec_enc_rusage)

section \<open>The transfer loops\<close>

lemma write_all_unfold:
  "write_all K fd bs s =
     (if bs = [] then Some (True, s)
      else case sys K (Write fd bs) s of (r, s') \<Rightarrow>
        if r = Fail EINTR then write_all K fd bs s'
        else if rv r \<le> 0 then Some (False, s')
        else write_all K fd (drop (nat (rv r)) bs) s')"
proof (cases "sys K (Write fd bs) s")
  case (Pair r s')
  then show ?thesis
    by (subst write_all.simps) (cases r; auto simp: errno_sys_fail)
qed

lemma read_loop_unfold:
  "read_loop K fd n got s =
     (if n = 0 then Some ((True, got), s)
      else case sys K (Read fd n) s of (r, s') \<Rightarrow>
        if r = Fail EINTR then read_loop K fd n got s'
        else if rv r \<le> 0 then Some ((False, got), s')
        else read_loop K fd (n - nat (rv r)) (got @ reply_data r) s')"
proof (cases "sys K (Read fd n) s")
  case (Pair r s')
  then show ?thesis
    by (subst read_loop.simps) (cases r; auto simp: errno_sys_fail)
qed

lemma write_all_Nil [simp]: "write_all K fd [] s = Some (True, s)"
  by (subst write_all.simps) simp

lemma read_loop_0 [simp]: "read_loop K fd 0 got s = Some ((True, got), s)"
  by (subst read_loop.simps) simp

text \<open>
  Whatever the kernel does, \<open>write_all\<close> only writes to its descriptor, what it managed to write
  is a prefix of the data, and it reports success exactly when that is all of it.
\<close>

lemma write_all_Some:
  assumes "write_all K fd bs s = Some (ok, s')"
  shows "\<exists>new. emits s new s' \<and> (\<forall>x \<in> set new. writes_to fd (fst x)) \<and>
           prefix (put_on fd new) bs \<and> (ok \<longrightarrow> put_on fd new = bs)"
proof -
  define P where "P = (\<lambda>(K' :: 'a kernel) fd bs (s :: 'a proc) (x :: bool \<times> 'a proc).
     \<exists>new. emits s new (snd x) \<and> (\<forall>x \<in> set new. writes_to fd (fst x)) \<and>
           prefix (put_on fd new) bs \<and> (fst x \<longrightarrow> put_on fd new = bs))"
  have "P K fd bs s (ok, s')"
  proof (rule write_all.raw_induct [where P = P, OF _ assms])
    fix f :: "'a kernel \<Rightarrow> int \<Rightarrow> bytes \<Rightarrow> 'a proc \<Rightarrow> (bool \<times> 'a proc) option" and K fd bs s x
    assume IH: "\<And>K fd bs s x. f K fd bs s = Some x \<Longrightarrow> P K fd bs s x"
      and eq: "(if bs = [] then Some (True, s)
        else case sys K (Write fd bs) s of (r, s') \<Rightarrow>
          if rv r = - 1 then (if errno s' = EINTR then f K fd bs s' else Some (False, s'))
          else if rv r = 0 then Some (False, s')
          else f K fd (drop (nat (rv r)) bs) s') = Some x"
    obtain r t where sys: "sys K (Write fd bs) s = (r, t)" by fastforce
    note e1 = emits_sys [OF sys]
    have rest: "P K fd bs s x" if "f K fd (drop (nat (rv r)) bs) t = Some x"
    proof -
      from IH [OF that] obtain new where new: "emits t new (snd x)"
        "\<forall>x \<in> set new. writes_to fd (fst x)" "prefix (put_on fd new) (drop (nat (rv r)) bs)"
        "fst x \<longrightarrow> put_on fd new = drop (nat (rv r)) bs"
        unfolding P_def by blast
      have pre: "prefix (take (nat (rv r)) bs @ put_on fd new) bs"
        using new(3) by (metis append_take_drop_id same_prefix_prefix)
      show ?thesis unfolding P_def
        using emits_trans [OF e1 new(1)] new(2,4) pre
        by (intro exI [of _ "(Write fd bs, r) # new"]) (auto simp: writes_to_def)
    qed
    have stop: "P K fd bs s (False, t)"
      unfolding P_def using e1
      by (intro exI [of _ "[(Write fd bs, r)]"]) (auto simp: writes_to_def take_is_prefix)
    show "P K fd bs s x"
    proof (cases "bs = []")
      case True
      with eq have "x = (True, s)" by simp
      with True show ?thesis unfolding P_def by (auto intro: exI [of _ "[]"])
    next
      case False
      with eq sys rest stop show ?thesis by (auto split: if_splits)
    qed
  qed
  then show ?thesis by (simp add: P_def)
qed

text \<open>\<open>read_loop\<close> only reads its descriptor, and the buffer holds exactly the bytes it was given.\<close>

lemma read_loop_Some:
  assumes "read_loop K fd n got s = Some ((ok, data), s')"
  shows "\<exists>new. emits s new s' \<and> (\<forall>x \<in> set new. reads_from fd (fst x)) \<and> data = got @ got_from fd new"
proof -
  define P where "P = (\<lambda>(K' :: 'a kernel) fd (n :: nat) got (s :: 'a proc) (x :: (bool \<times> bytes) \<times> 'a proc).
     \<exists>new. emits s new (snd x) \<and> (\<forall>x \<in> set new. reads_from fd (fst x)) \<and>
           snd (fst x) = got @ got_from fd new)"
  have "P K fd n got s ((ok, data), s')"
  proof (rule read_loop.raw_induct [where P = P, OF _ assms])
    fix f :: "'a kernel \<Rightarrow> int \<Rightarrow> nat \<Rightarrow> bytes \<Rightarrow> 'a proc \<Rightarrow> ((bool \<times> bytes) \<times> 'a proc) option"
      and K fd n got s x
    assume IH: "\<And>K fd n got s x. f K fd n got s = Some x \<Longrightarrow> P K fd n got s x"
      and eq: "(if n = 0 then Some ((True, got), s)
        else case sys K (Read fd n) s of (r, s') \<Rightarrow>
          if rv r = - 1 then (if errno s' = EINTR then f K fd n got s' else Some ((False, got), s'))
          else if rv r = 0 then Some ((False, got), s')
          else f K fd (n - nat (rv r)) (got @ reply_data r) s') = Some x"
    obtain r t where sys: "sys K (Read fd n) s = (r, t)" by fastforce
    note e1 = emits_sys [OF sys]
    have none: "reply_data r = []" if "rv r \<le> 0" using that by (cases r) auto
    have rest: "P K fd n got s x" if "f K fd k (got @ reply_data r) t = Some x" for k
    proof -
      from IH [OF that] obtain new where new: "emits t new (snd x)"
        "\<forall>x \<in> set new. reads_from fd (fst x)" "snd (fst x) = (got @ reply_data r) @ got_from fd new"
        unfolding P_def by blast
      show ?thesis unfolding P_def
        using emits_trans [OF e1 new(1)] new(2,3)
        by (intro exI [of _ "(Read fd n, r) # new"]) (auto simp: reads_from_def)
    qed
    have stop: "P K fd n got s ((False, got), t)" if "rv r \<le> 0"
      unfolding P_def using e1 none [OF that]
      by (intro exI [of _ "[(Read fd n, r)]"]) (auto simp: reads_from_def)
    show "P K fd n got s x"
    proof (cases "n = 0")
      case True
      with eq have "x = ((True, got), s)" by simp
      then show ?thesis unfolding P_def by (auto intro: exI [of _ "[]"])
    next
      case False
      with eq sys rest [of n] rest [of "n - nat (rv r)"] stop none show ?thesis
        by (auto split: if_splits)
    qed
  qed
  then show ?thesis by (simp add: P_def)
qed

lemma write_all_only: "write_all K fd bs s = Some (ok, s') \<Longrightarrow> only (writes_to fd) s s'"
  unfolding only_def using write_all_Some [of K fd bs s ok s'] by blast

lemma read_all_only: "read_all K fd n s = Some (x, s') \<Longrightarrow> only (reads_from fd) s s'"
  unfolding only_def read_all_def by (cases x) (use read_loop_Some [of K fd n "[]" s] in blast)

lemma read_all_data:
  "read_all K fd n s = Some ((ok, data), s') \<Longrightarrow>
     \<exists>new. emits s new s' \<and> (\<forall>x \<in> set new. reads_from fd (fst x)) \<and> data = got_from fd new"
  unfolding read_all_def using read_loop_Some [of K fd n "[]" s ok data s'] by simp

lemma send_message_only: "send_message K fd ty p s = Some (ok, s') \<Longrightarrow> only (writes_to fd) s s'"
  unfolding send_message_def
  by (auto simp: bind_Some_conv Let_def split: if_splits intro: only_trans dest!: write_all_only)

section \<open>Channels\<close>

text \<open>
  A descriptor written to by one process and read by another: \<open>write\<close> takes a non-empty prefix
  of what it is given (or is interrupted), \<open>read\<close> gives a non-empty prefix of what is there (or is
  interrupted), in order and without loss.
\<close>

definition accepts :: "'w kernel \<Rightarrow> int \<Rightarrow> ('w \<Rightarrow> bytes) \<Rightarrow> bool" where
  "accepts K fd buf \<longleftrightarrow> (\<forall>bs w r w'. bs \<noteq> [] \<longrightarrow> K (Write fd bs) w = (r, w') \<longrightarrow>
       ((\<exists>n. r = Ret n \<and> 0 < n \<and> n \<le> length bs \<and> buf w' = buf w @ take n bs) \<or>
        r = Fail EINTR \<and> buf w' = buf w))"

definition delivers :: "'w kernel \<Rightarrow> int \<Rightarrow> ('w \<Rightarrow> bytes) \<Rightarrow> bool" where
  "delivers K fd buf \<longleftrightarrow> (\<forall>n w r w'. 0 < n \<longrightarrow> buf w \<noteq> [] \<longrightarrow> K (Read fd n) w = (r, w') \<longrightarrow>
       ((\<exists>bs. r = Data bs \<and> bs \<noteq> [] \<and> length bs \<le> n \<and> buf w = bs @ buf w') \<or>
        r = Fail EINTR \<and> buf w' = buf w))"

lemma accepts_sys:
  assumes "accepts K fd buf" "bs \<noteq> []" "sys K (Write fd bs) s = (r, s')"
  shows "(\<exists>n. r = Ret n \<and> 0 < n \<and> n \<le> length bs \<and> buf (world s') = buf (world s) @ take n bs) \<or>
         r = Fail EINTR \<and> buf (world s') = buf (world s)"
  using assms(1,2) sys_world [OF assms(3)] unfolding accepts_def by blast

lemma delivers_sys:
  assumes "delivers K fd buf" "0 < n" "buf (world s) \<noteq> []" "sys K (Read fd n) s = (r, s')"
  shows "(\<exists>bs. r = Data bs \<and> bs \<noteq> [] \<and> length bs \<le> n \<and> buf (world s) = bs @ buf (world s')) \<or>
         r = Fail EINTR \<and> buf (world s') = buf (world s)"
  using assms(1-3) sys_world [OF assms(4)] unfolding delivers_def by blast

lemma write_all_total:
  assumes "patient K m" "accepts K fd buf"
  shows "\<exists>s'. write_all K fd bs s = Some (True, s') \<and> buf (world s') = buf (world s) @ bs"
proof (induction "length bs + m (world s)" arbitrary: bs s rule: less_induct)
  case less
  show ?case
  proof (cases "bs = []")
    case True
    then show ?thesis by simp
  next
    case False
    obtain r t where sys: "sys K (Write fd bs) s = (r, t)" by fastforce
    from accepts_sys [OF assms(2) False sys] show ?thesis
    proof
      assume "\<exists>n. r = Ret n \<and> 0 < n \<and> n \<le> length bs \<and> buf (world t) = buf (world s) @ take n bs"
      then obtain n where n: "r = Ret n" "0 < n" "n \<le> length bs"
        "buf (world t) = buf (world s) @ take n bs" by blast
      have "\<exists>s'. write_all K fd (drop n bs) t = Some (True, s') \<and>
                 buf (world s') = buf (world t) @ drop n bs"
        using n(2,3) patient_sys [OF assms(1) sys] by (intro less) auto
      with n False sys show ?thesis by (auto simp: write_all_unfold [of K fd bs s])
    next
      assume i: "r = Fail EINTR \<and> buf (world t) = buf (world s)"
      with patient_sys [OF assms(1) sys] have "m (world t) < m (world s)" by simp
      then have "\<exists>s'. write_all K fd bs t = Some (True, s') \<and> buf (world s') = buf (world t) @ bs"
        by (intro less) simp
      with i False sys show ?thesis by (simp add: write_all_unfold [of K fd bs s])
    qed
  qed
qed

lemma read_loop_total:
  assumes "patient K m" "delivers K fd buf"
  shows "n \<le> length (buf (world s)) \<Longrightarrow>
    \<exists>s'. read_loop K fd n got s = Some ((True, got @ take n (buf (world s))), s') \<and>
         buf (world s') = drop n (buf (world s))"
proof (induction "n + m (world s)" arbitrary: n got s rule: less_induct)
  case less
  show ?case
  proof (cases "n = 0")
    case True
    then show ?thesis by simp
  next
    case False
    then have ne: "0 < n" "buf (world s) \<noteq> []" using less.prems by auto
    obtain r t where sys: "sys K (Read fd n) s = (r, t)" by fastforce
    from delivers_sys [OF assms(2) ne sys] show ?thesis
    proof
      assume "\<exists>bs. r = Data bs \<and> bs \<noteq> [] \<and> length bs \<le> n \<and> buf (world s) = bs @ buf (world t)"
      then obtain bs where bs: "r = Data bs" "bs \<noteq> []" "length bs \<le> n"
        "buf (world s) = bs @ buf (world t)" by blast
      then have "0 < length bs" by simp
      then have "n - length bs + m (world t) < n + m (world s)"
        using bs(3) patient_sys [OF assms(1) sys] by linarith
      moreover have "n - length bs \<le> length (buf (world t))" using less.prems bs(4) by simp
      ultimately have "\<exists>s'. read_loop K fd (n - length bs) (got @ bs) t =
          Some ((True, (got @ bs) @ take (n - length bs) (buf (world t))), s') \<and>
          buf (world s') = drop (n - length bs) (buf (world t))"
        by (rule less.hyps)
      with bs ne sys show ?thesis by (auto simp: read_loop_unfold [of K fd n got s])
    next
      assume i: "r = Fail EINTR \<and> buf (world t) = buf (world s)"
      with patient_sys [OF assms(1) sys] have "m (world t) < m (world s)" by simp
      then have "\<exists>s'. read_loop K fd n got t = Some ((True, got @ take n (buf (world t))), s') \<and>
          buf (world s') = drop n (buf (world t))"
        using less.prems i by (intro less.hyps) auto
      with i ne sys show ?thesis by (simp add: read_loop_unfold [of K fd n got s])
    qed
  qed
qed

lemmas read_all_total = read_loop_total [where got = "[]", folded read_all_def, simplified]

lemma send_message_total:
  assumes "patient K m" "accepts K fd buf" "length payload < 2 ^ 32"
  shows "\<exists>s'. send_message K fd ty payload s = Some (True, s') \<and>
    buf (world s') = buf (world s) @
      enc_header \<lparr>msg_type = msg_code ty, payload_size = word_of_nat (length payload)\<rparr> @ payload"
proof -
  let ?h = "\<lparr>msg_type = msg_code ty, payload_size = word_of_nat (length payload)\<rparr>"
  obtain s1 where s1: "write_all K fd (enc_header ?h) s = Some (True, s1)"
    "buf (world s1) = buf (world s) @ enc_header ?h"
    using write_all_total [OF assms(1,2)] by blast
  obtain s2 where s2: "write_all K fd payload s1 = Some (True, s2)"
    "buf (world s2) = buf (world s1) @ payload"
    using write_all_total [OF assms(1,2)] by blast
  have "payload = []" if "(word_of_nat (length payload) :: u32) = 0"
  proof -
    from that have "2 ^ 32 dvd length payload" by (simp add: word_of_nat_eq_0_iff)
    with assms(3) show ?thesis by (auto dest: dvd_imp_le)
  qed
  with s1 s2 show ?thesis by (auto simp: send_message_def)
qed

lemma receive_message_total:
  assumes "patient K m" "delivers K fd buf"
    and "buf (world s) = enc_header h @ payload @ rest"
    and "unat (payload_size h) = length payload" "length payload \<le> cap"
  shows "\<exists>s'. receive_message K fd cap s = Some (Some (h, payload), s') \<and> buf (world s') = rest"
proof -
  note split = header_codec.stream_split [of h "payload @ rest", simplified]
  have "sizeof_header \<le> length (buf (world s))"
    using assms(3) header_codec.enc_width [of h] by simp
  from read_all_total [OF assms(1,2) this] obtain s1 where
    s1: "read_all K fd sizeof_header s = Some ((True, take sizeof_header (buf (world s))), s1)"
      "buf (world s1) = payload @ rest"
    using assms(3) split by auto
  have h: "dec_header (take sizeof_header (buf (world s))) = h"
    using assms(3) split by simp
  have "length payload \<le> length (buf (world s1))" using s1(2) by simp
  from read_all_total [OF assms(1,2) this] obtain s2 where
    s2: "read_all K fd (length payload) s1 = Some ((True, payload), s2)" "buf (world s2) = rest"
    using s1(2) by auto
  show ?thesis
  proof (cases "payload = []")
    case True
    with assms(4) have "payload_size h = 0" by (simp add: unat_eq_zero)
    with True s1 h show ?thesis by (auto simp: receive_message_def)
  next
    case False
    with assms(4) have "payload_size h \<noteq> 0" by auto
    with False s1 s2 h assms(4,5) show ?thesis by (auto simp: receive_message_def)
  qed
qed

text \<open>A typed payload survives the channel, whatever the codec.\<close>

context fixed_codec
begin

lemma typed_roundtrip:
  assumes "patient K m" "accepts K wfd buf" "delivers K rfd buf"
    and "buf (world s) = []" "valid x" "width < 2 ^ 32" "width \<le> cap"
  shows "\<exists>s1. send_message K wfd ty (enc x) s = Some (True, s1) \<and>
    (\<forall>t. world t = world s1 \<longrightarrow> (\<exists>t'. receive_message K rfd cap t =
       Some (Some (\<lparr>msg_type = msg_code ty, payload_size = word_of_nat width\<rparr>, enc x), t') \<and>
       dec (enc x) = x \<and> buf (world t') = []))"
proof -
  let ?h = "\<lparr>msg_type = msg_code ty, payload_size = word_of_nat width :: u32\<rparr>"
  have w: "length (enc x) = width" using enc_width assms(5) by simp
  obtain s1 where s1: "send_message K wfd ty (enc x) s = Some (True, s1)"
    "buf (world s1) = enc_header ?h @ enc x @ []"
    using send_message_total [OF assms(1,2), of "enc x" ty s] w assms(4,6) by auto
  have "unat (payload_size ?h) = length (enc x)"
    using w assms(6) by (simp add: unat_of_nat take_bit_eq_mod)
  then have "\<exists>t'. receive_message K rfd cap t = Some (Some (?h, enc x), t') \<and> buf (world t') = []"
    if "world t = world s1" for t
    using receive_message_total [OF assms(1,3), of t ?h "enc x" "[]" cap] that s1(2) w assms(7) by simp
  with s1 dec_enc [OF assms(5)] show ?thesis by auto
qed

end

lemma retry_first_byte:
  assumes "patient K m" "delivers K fd buf"
  shows "buf (world s) = b # rest \<Longrightarrow>
    \<exists>s'. retry K (Read fd 1) s = Some (Data [b], s') \<and> buf (world s') = rest"
proof (induction "m (world s)" arbitrary: s rule: less_induct)
  case less
  obtain r t where sys: "sys K (Read fd 1) s = (r, t)" by fastforce
  have ne: "buf (world s) \<noteq> []" using less.prems by simp
  from delivers_sys [OF assms(2) _ ne sys] show ?case
  proof
    assume "\<exists>bs. r = Data bs \<and> bs \<noteq> [] \<and> length bs \<le> 1 \<and> buf (world s) = bs @ buf (world t)"
    then have "r = Data [b]" "buf (world t) = rest"
      using less.prems by (auto simp: length_Suc_conv le_Suc_eq)
    with sys show ?thesis by (simp add: retry_unfold [of K _ s])
  next
    assume i: "r = Fail EINTR \<and> buf (world t) = buf (world s)"
    with patient_sys [OF assms(1) sys] have "m (world t) < m (world s)" by simp
    from less.hyps [OF this] i less.prems sys show ?thesis
      by (simp add: retry_unfold [of K _ s])
  qed simp
qed

lemma read_status_pipe_tagged:
  assumes "patient K m" "delivers K fd buf" "buf (world s) = TAG # enc32 st @ rest"
  shows "\<exists>s'. read_status_pipe K fd s = Some (WaitStatus st, s') \<and> buf (world s') = rest"
proof -
  obtain s1 where s1: "retry K (Read fd 1) s = Some (Data [TAG], s1)" "buf (world s1) = enc32 st @ rest"
    using retry_first_byte [OF assms(1,2,3)] by blast
  have "sizeof_int \<le> length (buf (world s1))" using s1(2) by (simp add: sizeof_defs)
  from read_all_total [OF assms(1,2) this] obtain s2 where
    "read_all K fd sizeof_int s1 = Some ((True, enc32 st), s2)" "buf (world s2) = rest"
    using s1(2) int_codec.stream_split [of st rest] by (auto simp: sizeof_defs)
  with s1 show ?thesis by (simp add: read_status_pipe_def)
qed

lemma read_status_pipe_untagged:
  assumes "patient K m" "delivers K fd buf" "buf (world s) = bs @ rest"
    and "length bs = sizeof_setup_failed" "hd bs \<noteq> TAG"
  shows "\<exists>s'. read_status_pipe K fd s = Some (Payload (dec_setup_failed bs), s') \<and> buf (world s') = rest"
proof -
  obtain b bs' where bs: "bs = b # bs'" using assms(4) by (cases bs) (auto simp: sizeof_defs)
  with assms(3) have "buf (world s) = b # bs' @ rest" by simp
  from retry_first_byte [OF assms(1,2) this] obtain s1 where
    s1: "retry K (Read fd 1) s = Some (Data [b], s1)" "buf (world s1) = bs' @ rest"
    by blast
  have len: "length bs' = sizeof_setup_failed - 1" using assms(4) bs by simp
  then have "sizeof_setup_failed - 1 \<le> length (buf (world s1))" using s1(2) by simp
  from read_loop_total [OF assms(1,2) this, of "[b]"] obtain s2 where
    "read_loop K fd (sizeof_setup_failed - 1) [b] s1 = Some ((True, bs), s2)" "buf (world s2) = rest"
    using s1(2) len bs by auto
  with s1 assms(5) bs show ?thesis by (simp add: read_status_pipe_def)
qed

section \<open>A pipe\<close>

text \<open>
  A concrete channel for the witnesses: a byte queue with a schedule of transfer sizes, where
  size zero is an interruption. It serves every descriptor from the one queue.
\<close>

fun fifo :: "(bytes \<times> nat list) kernel" where
  "fifo (Write fd bs) (buf, []) = (Ret (length bs), (buf @ bs, []))"
| "fifo (Write fd bs) (buf, c # cs) =
     (if c = 0 then (Fail EINTR, (buf, cs)) else (Ret (min c (length bs)), (buf @ take c bs, cs)))"
| "fifo (Read fd n) (buf, []) = (Data (take n buf), (drop n buf, []))"
| "fifo (Read fd n) (buf, c # cs) =
     (if c = 0 then (Fail EINTR, (buf, cs))
      else (Data (take (min c n) buf), (drop (min c n) buf, cs)))"
| "fifo c w = (Ret 0, w)"

lemma fifo_patient: "patient fifo (length \<circ> snd)"
proof -
  have "length (snd (snd (fifo c (b, cs)))) \<le> length cs \<and>
     (fst (fifo c (b, cs)) = Fail EINTR \<longrightarrow> length (snd (snd (fifo c (b, cs)))) < length cs)" for c b cs
    by (cases c; cases cs) (auto simp: Let_def)
  then show ?thesis by (simp add: patient_def)
qed

lemma fifo_accepts: "accepts fifo fd fst"
proof -
  have "(\<exists>n. r = Ret n \<and> 0 < n \<and> n \<le> length bs \<and> fst w' = b @ take n bs) \<or> r = Fail EINTR \<and> fst w' = b"
    if "bs \<noteq> []" "fifo (Write fd bs) (b, cs) = (r, w')" for bs b cs r w'
    using that by (cases cs) (auto split: if_splits simp: min_def)
  then show ?thesis unfolding accepts_def by (metis prod.collapse)
qed

lemma fifo_delivers: "delivers fifo fd fst"
proof -
  have "(\<exists>bs. r = Data bs \<and> bs \<noteq> [] \<and> length bs \<le> n \<and> b = bs @ fst w') \<or> r = Fail EINTR \<and> fst w' = b"
    if "0 < n" "b \<noteq> []" "fifo (Read fd n) (b, cs) = (r, w')" for n b cs r w'
    using that by (cases cs) (auto split: if_splits)
  then show ?thesis unfolding delivers_def by (metis prod.collapse)
qed

lemmas fifo_channel = fifo_patient fifo_accepts fifo_delivers

section \<open>Protocol properties\<close>

text \<open>
  C18. A message sent with \<open>send_message\<close> over a byte channel is received by \<open>receive_message\<close>
  in the process at the other end with the type, the size and the payload it was sent with, and
  nothing is left on the channel, however the kernel fragments and interrupts the transfers. Both
  calls return.
\<close>

theorem message_roundtrip:
  assumes "patient K m" "accepts K wfd buf" "delivers K rfd buf" "buf (world s) = []"
    and "length payload < 2 ^ 32" "length payload \<le> cap"
  shows "\<exists>s1. send_message K wfd ty payload s = Some (True, s1) \<and>
    (\<forall>t. world t = world s1 \<longrightarrow> (\<exists>t'. receive_message K rfd cap t =
       Some (Some (\<lparr>msg_type = msg_code ty, payload_size = word_of_nat (length payload)\<rparr>, payload), t') \<and>
       buf (world t') = []))"
proof -
  let ?h = "\<lparr>msg_type = msg_code ty, payload_size = word_of_nat (length payload) :: u32\<rparr>"
  obtain s1 where s1: "send_message K wfd ty payload s = Some (True, s1)"
    "buf (world s1) = enc_header ?h @ payload @ []"
    using send_message_total [OF assms(1,2,5), of ty s] assms(4) by auto
  have "unat (payload_size ?h) = length payload"
    using assms(5) by (simp add: unat_of_nat take_bit_eq_mod)
  then have "\<exists>t'. receive_message K rfd cap t = Some (Some (?h, payload), t') \<and> buf (world t') = []"
    if "world t = world s1" for t
    using receive_message_total [OF assms(1,3), of t ?h payload "[]" cap] that s1(2) assms(6) by simp
  with s1 show ?thesis by blast
qed

theorem message_roundtrip_witness:
  "\<exists>s1. send_message fifo 4 Terminate [] (boot ([], [0, 3, 0, 2])) = Some (True, s1) \<and>
    (\<forall>t. world t = world s1 \<longrightarrow> (\<exists>t'. receive_message fifo 3 16 t =
       Some (Some (\<lparr>msg_type = 3, payload_size = 0\<rparr>, []), t') \<and> fst (world t') = []))"
  using message_roundtrip [OF fifo_channel(1-3), of "boot ([], [0, 3, 0, 2])" "[]" 16 4 Terminate 3]
  by (simp add: boot_def)

text \<open>
  C19. A wait status forwarded with \<open>write_wait_status\<close> is read back by \<open>read_status_pipe\<close> as
  that wait status, and the pipe is then empty. Both calls return.
\<close>

theorem wait_status_roundtrip:
  assumes "patient K m" "accepts K wfd buf" "delivers K rfd buf" "buf (world s) = []"
  shows "\<exists>s1. write_wait_status K wfd st s = Some (True, s1) \<and>
    (\<forall>t. world t = world s1 \<longrightarrow>
       (\<exists>t'. read_status_pipe K rfd t = Some (WaitStatus st, t') \<and> buf (world t') = []))"
proof -
  obtain s1 where s1: "write_all K wfd [TAG] s = Some (True, s1)" "buf (world s1) = [TAG]"
    using write_all_total [OF assms(1,2)] assms(4) by fastforce
  obtain s2 where s2: "write_all K wfd (enc32 st) s1 = Some (True, s2)"
    "buf (world s2) = TAG # enc32 st @ []"
    using write_all_total [OF assms(1,2), of "enc32 st" s1] s1(2) by auto
  have "write_wait_status K wfd st s = Some (True, s2)"
    using s1 s2 by (simp add: write_wait_status_def)
  moreover have "\<exists>t'. read_status_pipe K rfd t = Some (WaitStatus st, t') \<and> buf (world t') = []"
    if "world t = world s2" for t
    using read_status_pipe_tagged [OF assms(1,3), of t st "[]"] that s2(2) by simp
  ultimately show ?thesis by blast
qed

theorem wait_status_roundtrip_witness:
  "\<exists>s1. write_wait_status fifo 8 139 (boot ([], [0, 1, 2])) = Some (True, s1) \<and>
    (\<forall>t. world t = world s1 \<longrightarrow>
       (\<exists>t'. read_status_pipe fifo 7 t = Some (WaitStatus 139, t') \<and> fst (world t') = []))"
  using wait_status_roundtrip [OF fifo_channel(1-3), of "boot ([], [0, 1, 2])" 8 139 7]
  by (simp add: boot_def)

end
