(* ===== verification/Sandbox.thy ===== *)
theory Sandbox
  imports Execution_Types Sandbox_Protocol
begin

text \<open>
  \<open>include/sandbox/sandbox.hpp\<close> and \<open>src/sandbox/sandbox.cpp\<close>: the class \<open>Sandbox\<close>. An
  operation takes the kernel, the object's members and the calling process, and returns its result
  with both updated. \<open>fork\<close> returns in two processes: \<open>createExecutionProcess\<close> is the caller's
  side, \<open>child_main\<close> the child's (lines 245 to 400), which ends by \<open>_exit\<close>, by raising a signal
  on itself or by \<open>execvp\<close>. The diagnostics on \<open>std::cerr\<close> are left out.
\<close>

section \<open>Members and parameters\<close>

record SandboxProcess =
  host_pid :: int
  namespace_pid :: int
  status_fd :: int

definition default_SandboxProcess :: SandboxProcess where
  "default_SandboxProcess = \<lparr>host_pid = - 1, namespace_pid = 1, status_fd = - 1\<rparr>"

record SandboxSetupResult =
  success :: bool
  setup_process :: SandboxProcess
  setup_stage :: SandboxSetupStage
  setup_error :: cint

definition default_SandboxSetupResult :: SandboxSetupResult where
  "default_SandboxSetupResult =
     \<lparr>success = False, setup_process = default_SandboxProcess, setup_stage = NoStage, setup_error = 0\<rparr>"

definition setup_ok :: SandboxSetupResult where
  "setup_ok = default_SandboxSetupResult\<lparr>success := True\<rparr>"

record SandboxExecutionContext =
  stdin_fd :: int
  stdout_fd :: int
  stderr_fd :: int
  control_fd :: int
  context_status_fd :: int

record SandboxExecutionSpec =
  spec_executable :: string
  spec_args :: "string list"
  spec_cpu_limit :: int
  spec_memory_limit :: u64

record Sandbox =
  config :: SandboxConfig
  root_path :: string
  cgroup_path :: string

definition new_Sandbox :: "SandboxConfig \<Rightarrow> Sandbox" where
  "new_Sandbox c = \<lparr>config = c, root_path = [], cgroup_path = []\<rparr>"

text \<open>How a forked process ends.\<close>

datatype proc_end =
    Exited int
  | SignalledSelf cint
  | Execed string "string list"

text \<open>
  What calling a function that forks comes to in one process: it returns a value to its caller, or
  the process is a child that ends inside the call.
\<close>

datatype 'a forked = Returns 'a | Ends proc_end

text \<open>The octal modes \<open>0755\<close>, \<open>0700\<close> and \<open>0555\<close>.\<close>

abbreviation (input) mode_755 :: nat where "mode_755 \<equiv> 0x1ED"
abbreviation (input) mode_700 :: nat where "mode_700 \<equiv> 0x1C0"
abbreviation (input) mode_555 :: nat where "mode_555 \<equiv> 0x16D"

section \<open>Setup failures\<close>

definition failSetup ::
  "'w kernel \<Rightarrow> int \<Rightarrow> SandboxSetupStage \<Rightarrow> cint \<Rightarrow> 'w proc \<Rightarrow> (SandboxSetupResult \<times> 'w proc) option"
where
  "failSetup K fd stage e s = do {
     let payload = \<lparr>failed_stage = stage_code stage, error_code = e\<rparr>;
     (_, s) \<leftarrow> send_message K fd SetupFailed (enc_setup_failed payload) s;
     Some (default_SandboxSetupResult\<lparr>success := False, setup_stage := stage, setup_error := e\<rparr>, s)
   }"

section \<open>User namespace\<close>

text \<open>
  Opening a \<open>/proc/self\<close> file, writing its whole content with one \<open>write\<close> and closing it; the
  three blocks of \<open>setupUserNamespace\<close> are the same text up to the file and its content.
\<close>

definition write_proc_file ::
  "'w kernel \<Rightarrow> int \<Rightarrow> string \<Rightarrow> string \<Rightarrow> 'w proc \<Rightarrow> (SandboxSetupResult \<times> 'w proc) option"
where
  "write_proc_file K cfd path content s =
     (case sys K (Open path O_WRONLY) s of (fd, s) \<Rightarrow>
        if rv fd = - 1 then failSetup K cfd Identity (errno s) s
        else case sys K (Write (rv fd) (string_bytes content)) s of (written, s) \<Rightarrow>
          if rv written \<noteq> int (length content) then
            (let e = errno s; s = do_sys K (Close (rv fd)) s in failSetup K cfd Identity e s)
          else Some (setup_ok, do_sys K (Close (rv fd)) s))"

definition newline :: string where
  "newline = [CHR 0x0A]"

definition id_map :: "int \<Rightarrow> string" where
  "id_map i = ''0 '' @ to_decimal_int i @ '' 1'' @ newline"

definition setupUserNamespace ::
  "'w kernel \<Rightarrow> int \<Rightarrow> 'w proc \<Rightarrow> (SandboxSetupResult \<times> 'w proc) option"
where
  "setupUserNamespace K cfd s =
     (case sys K Getuid s of (host_uid, s) \<Rightarrow>
      case sys K Getgid s of (host_gid, s) \<Rightarrow>
      case sys K (Unshare CLONE_NEWUSER) s of (u, s) \<Rightarrow>
        if rv u = - 1 then failSetup K cfd Identity (errno s) s
        else do {
          (res, s) \<leftarrow> write_proc_file K cfd ''/proc/self/setgroups'' (''deny'' @ newline) s;
          if \<not> success res then Some (res, s) else do {
            (res, s) \<leftarrow> write_proc_file K cfd ''/proc/self/uid_map'' (id_map (rv host_uid)) s;
            if \<not> success res then Some (res, s)
            else write_proc_file K cfd ''/proc/self/gid_map'' (id_map (rv host_gid)) s
          }
        })"

section \<open>Cgroup and root directory\<close>

definition cgroup_dir :: "u64 \<Rightarrow> string" where
  "cgroup_dir execution_id = ''/sys/fs/cgroup/online-judge/execution-'' @ to_decimal (unat execution_id)"

definition setupCgroup ::
  "'w kernel \<Rightarrow> int \<Rightarrow> u64 \<Rightarrow> Sandbox \<Rightarrow> 'w proc \<Rightarrow> ((SandboxSetupResult \<times> Sandbox) \<times> 'w proc) option"
where
  "setupCgroup K cfd execution_id sb s =
     (let sb = sb\<lparr>cgroup_path := cgroup_dir execution_id\<rparr> in
      case sys K (Mkdir (cgroup_path sb) mode_755) s of (r, s) \<Rightarrow>
        if rv r = - 1 then
          (let e = errno s in
           if e = EEXIST then do {
             (res, s) \<leftarrow> failSetup K cfd Cgroup e s;
             Some ((res, sb\<lparr>cgroup_path := []\<rparr>), s)
           }
           else if e = EPERM \<or> e = EACCES then Some ((setup_ok, sb\<lparr>cgroup_path := []\<rparr>), s)
           else do {
             (res, s) \<leftarrow> failSetup K cfd Cgroup e s;
             Some ((res, sb), s)
           })
        else Some ((setup_ok, sb), s))"

definition prepareEnvironment ::
  "'w kernel \<Rightarrow> int \<Rightarrow> u64 \<Rightarrow> Sandbox \<Rightarrow> 'w proc \<Rightarrow> ((SandboxSetupResult \<times> Sandbox) \<times> 'w proc) option"
where
  "prepareEnvironment K cfd execution_id sb s = do {
     ((cgroup_result, sb), s) \<leftarrow> setupCgroup K cfd execution_id sb s;
     if \<not> success cgroup_result then Some ((cgroup_result, sb), s)
     else case sys K (Mkdtemp ''/tmp/oj-sandbox-XXXXXX'') s of (path, s) \<Rightarrow>
       if rv path = - 1 then do {
         (res, s) \<leftarrow> failSetup K cfd Filesystem (errno s) s;
         Some ((res, sb), s)
       }
       else Some ((setup_ok, sb\<lparr>root_path := reply_path path\<rparr>), s)
   }"

definition terminate :: "'w kernel \<Rightarrow> Sandbox \<Rightarrow> 'w proc \<Rightarrow> bool \<times> Sandbox \<times> 'w proc" where
  "terminate K sb s =
     (if cgroup_path sb = [] then (True, sb, s)
      else case sys K (Open (cgroup_path sb @ ''/cgroup.kill'') O_WRONLY) s of (fd, s) \<Rightarrow>
        if rv fd = - 1 then
          (if errno s = EPERM \<or> errno s = EACCES \<or> errno s = ENOENT
           then (True, sb\<lparr>cgroup_path := []\<rparr>, s) else (False, sb, s))
        else case sys K (Write (rv fd) (string_bytes ''1'')) s of (written, s) \<Rightarrow>
          let s = do_sys K (Close (rv fd)) s in
          if rv written = - 1 \<and> (errno s = EPERM \<or> errno s = EACCES)
          then (True, sb\<lparr>cgroup_path := []\<rparr>, s)
          else (rv written = 1, sb, s))"

fun cleanup_retries :: "'w kernel \<Rightarrow> nat \<Rightarrow> Sandbox \<Rightarrow> 'w proc \<Rightarrow> bool \<times> Sandbox \<times> 'w proc" where
  "cleanup_retries K 0 sb s = (False, sb, s)"
| "cleanup_retries K (Suc retries) sb s =
     (case sys K (Rmdir (cgroup_path sb)) s of (r, s) \<Rightarrow>
        if rv r = - 1 then
          (if errno s = ENOENT then (True, sb\<lparr>cgroup_path := []\<rparr>, s)
           else if errno s = EBUSY then cleanup_retries K retries sb (do_sys K (Usleep 10000) s)
           else if errno s = EPERM \<or> errno s = EACCES then (True, sb\<lparr>cgroup_path := []\<rparr>, s)
           else (False, sb, s))
        else (True, sb\<lparr>cgroup_path := []\<rparr>, s))"

definition cleanupCgroup :: "'w kernel \<Rightarrow> Sandbox \<Rightarrow> 'w proc \<Rightarrow> bool \<times> Sandbox \<times> 'w proc" where
  "cleanupCgroup K sb s = (if cgroup_path sb = [] then (True, sb, s) else cleanup_retries K 5 sb s)"

definition addProcessToCgroup ::
  "'w kernel \<Rightarrow> int \<Rightarrow> Sandbox \<Rightarrow> 'w proc \<Rightarrow> SandboxSetupResult \<times> Sandbox \<times> 'w proc"
where
  "addProcessToCgroup K pid sb s =
     (if cgroup_path sb = [] then (setup_ok, sb, s)
      else case sys K (Open (cgroup_path sb @ ''/cgroup.procs'') O_WRONLY) s of (fd, s) \<Rightarrow>
        if rv fd = - 1 then
          (if errno s = EPERM \<or> errno s = EACCES then (setup_ok, sb\<lparr>cgroup_path := []\<rparr>, s)
           else (default_SandboxSetupResult\<lparr>setup_stage := Cgroup, setup_error := errno s\<rparr>, sb, s))
        else
          let pid_string = to_decimal_int pid in
          case sys K (Write (rv fd) (string_bytes pid_string)) s of (written, s) \<Rightarrow>
          let e = (if rv written = - 1 then errno s else EIO);
              s = do_sys K (Close (rv fd)) s in
          if rv written = - 1 \<and> (errno s = EPERM \<or> errno s = EACCES)
          then (setup_ok, sb\<lparr>cgroup_path := []\<rparr>, s)
          else if rv written \<noteq> int (length pid_string)
          then (default_SandboxSetupResult\<lparr>setup_stage := Cgroup, setup_error := e\<rparr>, sb, s)
          else (setup_ok, sb, s))"

text \<open>What \<open>cgroup.events\<close> says: the character after the first \<open>populated\<close> is a zero.\<close>

definition unpopulated :: "bytes \<Rightarrow> bool" where
  "unpopulated buffer =
     (case after_first (string_bytes ''populated '') (c_string buffer) of
        Some (b # _) \<Rightarrow> [b] = string_bytes ''0''
      | _ \<Rightarrow> False)"

definition isCgroupEmpty :: "'w kernel \<Rightarrow> Sandbox \<Rightarrow> 'w proc \<Rightarrow> (bool \<times> 'w proc) option" where
  "isCgroupEmpty K sb s =
     (case sys K (Open (cgroup_path sb @ ''/cgroup.events'') O_RDONLY) s of (fd, s) \<Rightarrow>
        if rv fd = - 1 then Some (False, s)
        else do {
          (bytes_read, s) \<leftarrow> retry K (Read (rv fd) 255) s;
          let s = do_sys K (Close (rv fd)) s;
          if rv bytes_read = - 1 then Some (False, s)
          else Some (unpopulated (reply_data bytes_read), s)
        })"

section \<open>Filesystem\<close>

text \<open>The loop over the runtime directories: results of \<open>mkdir\<close> and of the remount are ignored.\<close>

fun bind_dirs :: "'w kernel \<Rightarrow> string \<Rightarrow> string list \<Rightarrow> 'w proc \<Rightarrow> 'w proc" where
  "bind_dirs K root [] s = s"
| "bind_dirs K root (dir # dirs) s =
     (let target = root @ dir; s = do_sys K (Mkdir target mode_755) s in
      case sys K (Mount (Some dir) target None [MS_BIND, MS_REC]) s of (r, s) \<Rightarrow>
        let s = (if rv r \<noteq> - 1
                 then do_sys K (Mount None target None [MS_BIND, MS_REMOUNT, MS_RDONLY, MS_REC]) s
                 else s)
        in bind_dirs K root dirs s)"

text \<open>A step of the setup that must succeed: a failure is reported on \<open>fd\<close> with its \<open>errno\<close>.\<close>

definition require ::
  "'w kernel \<Rightarrow> int \<Rightarrow> SandboxSetupStage \<Rightarrow> syscall \<Rightarrow> 'w proc \<Rightarrow> (SandboxSetupResult \<times> 'w proc) option"
where
  "require K fd stage c s =
     (case sys K c s of (r, s) \<Rightarrow>
        if rv r = - 1 then failSetup K fd stage (errno s) s else Some (setup_ok, s))"

text \<open>Required steps in order, up to the first that fails.\<close>

fun require_all ::
  "'w kernel \<Rightarrow> int \<Rightarrow> SandboxSetupStage \<Rightarrow> syscall list \<Rightarrow> 'w proc \<Rightarrow> (SandboxSetupResult \<times> 'w proc) option"
where
  "require_all K fd stage [] s = Some (setup_ok, s)"
| "require_all K fd stage (c # cs) s = do {
     (res, s) \<leftarrow> require K fd stage c s;
     if \<not> success res then Some (res, s) else require_all K fd stage cs s
   }"

text \<open>From \<open>mkdir(old_root)\<close> to the mount of \<open>/proc\<close>.\<close>

definition pivot_steps :: "string \<Rightarrow> syscall list" where
  "pivot_steps root =
     [Mkdir (root @ ''/old_root'') mode_700,
      PivotRoot root (root @ ''/old_root''),
      Chdir ''/'',
      Umount2Detach ''/old_root'',
      Rmdir ''/old_root'',
      Mkdir ''/proc'' mode_555,
      Mount (Some ''proc'') ''/proc'' (Some ''proc'') []]"

definition finalizeExecutionEnvironment ::
  "'w kernel \<Rightarrow> SandboxExecutionContext \<Rightarrow> SandboxExecutionSpec \<Rightarrow> Sandbox \<Rightarrow> 'w proc
     \<Rightarrow> (SandboxSetupResult \<times> 'w proc) option"
where
  "finalizeExecutionEnvironment K context spec sb s =
     (let s = bind_dirs K (root_path sb) [''/lib'', ''/lib64'', ''/usr'', ''/bin''] s;
          exe_target = root_path sb @ ''/sandbox_exec'' in
      case sys K (Creat exe_target mode_755) s of (fd, s) \<Rightarrow>
        if rv fd \<noteq> - 1 then
          (let s = do_sys K (Close (rv fd)) s in
           case sys K (Mount (Some (spec_executable spec)) exe_target None [MS_BIND]) s of (r, s) \<Rightarrow>
             if rv r = - 1 then failSetup K (context_status_fd context) Filesystem (errno s) s
             else
               let s = do_sys K (Mount None exe_target None [MS_BIND, MS_REMOUNT, MS_RDONLY]) s in
               require_all K (context_status_fd context) Filesystem (pivot_steps (root_path sb)) s)
        else failSetup K (context_status_fd context) Filesystem (errno s) s)"

section \<open>Executing the submission\<close>

definition report_failure ::
  "'w kernel \<Rightarrow> SandboxExecutionContext \<Rightarrow> SandboxSetupStage \<Rightarrow> cint \<Rightarrow> 'w proc \<Rightarrow> (bool \<times> 'w proc) option"
where
  "report_failure K context stage e s =
     write_all K (context_status_fd context)
       (enc_setup_failed \<lparr>failed_stage = stage_code stage, error_code = e\<rparr>) s"

text \<open>A call that must succeed before the program is executed: a failure is reported, and \<open>False\<close>.\<close>

definition guarded ::
  "'w kernel \<Rightarrow> SandboxExecutionContext \<Rightarrow> SandboxSetupStage \<Rightarrow> syscall \<Rightarrow> 'w proc \<Rightarrow> (bool \<times> 'w proc) option"
where
  "guarded K context stage c s =
     (case sys K c s of (r, s) \<Rightarrow>
        if rv r = - 1 then do {
          (_, s) \<leftarrow> report_failure K context stage (errno s) s;
          Some (False, s)
        }
        else Some (True, s))"

fun guarded_all ::
  "'w kernel \<Rightarrow> SandboxExecutionContext \<Rightarrow> SandboxSetupStage \<Rightarrow> syscall list \<Rightarrow> 'w proc \<Rightarrow> (bool \<times> 'w proc) option"
where
  "guarded_all K context stage [] s = Some (True, s)"
| "guarded_all K context stage (c # cs) s = do {
     (ok, s) \<leftarrow> guarded K context stage c s;
     if \<not> ok then Some (False, s) else guarded_all K context stage cs s
   }"

definition cpu_rlimit :: "SandboxExecutionSpec \<Rightarrow> u64" where
  "cpu_rlimit spec = word_of_int (spec_cpu_limit spec)"

text \<open>
  Redirect the standard descriptors, limit CPU time and address space, then replace the process
  image. The first call that fails is reported and ends the process.
\<close>

definition execute ::
  "'w kernel \<Rightarrow> SandboxExecutionContext \<Rightarrow> SandboxExecutionSpec \<Rightarrow> 'w proc \<Rightarrow> (proc_end \<times> 'w proc) option"
where
  "execute K context spec s = do {
     (ok, s) \<leftarrow> guarded_all K context StandardIO
       [Dup2 (stdin_fd context) 0, Dup2 (stdout_fd context) 1, Dup2 (stderr_fd context) 2] s;
     if \<not> ok then Some (Exited EXIT_FAILURE, s) else do {
       let s = do_sys K (Close (stdin_fd context)) s;
       let s = do_sys K (Close (stdout_fd context)) s;
       let s = do_sys K (Close (stderr_fd context)) s;
       (ok, s) \<leftarrow> guarded_all K context ResourceLimit
         [Setrlimit RLIMIT_CPU (cpu_rlimit spec) (cpu_rlimit spec),
          Setrlimit RLIMIT_AS (spec_memory_limit spec) (spec_memory_limit spec)] s;
       if \<not> ok then Some (Exited EXIT_FAILURE, s) else do {
         let argv = ''/sandbox_exec'' # spec_args spec;
         (ok, s) \<leftarrow> guarded K context Exec (Execvp ''/sandbox_exec'' argv) s;
         Some (if ok then Execed ''/sandbox_exec'' argv else Exited EXIT_FAILURE, s)
       }
     }
   }"

section \<open>The child process\<close>

text \<open>
  Child A after its fork: wait for child B, forward the wait status, close the status pipe, and
  end the way B ended. \<open>SignalledSelf\<close> is \<open>kill(getpid(), sig)\<close> followed by \<open>pause\<close> for ever.
\<close>

definition child_a_wait ::
  "'w kernel \<Rightarrow> SandboxExecutionContext \<Rightarrow> int \<Rightarrow> 'w proc \<Rightarrow> (proc_end \<times> 'w proc) option"
where
  "child_a_wait K context child_b s = do {
     (waited, s) \<leftarrow> retry K (Waitpid child_b Blocking) s;
     let b_status = reply_status waited;
     s \<leftarrow> (if rv waited = child_b
          then map_option snd (write_wait_status K (context_status_fd context) b_status s)
          else Some s);
     let s = do_sys K (Close (context_status_fd context)) s;
     if rv waited = child_b then
       (if WIFEXITED b_status then Some (Exited (uint (WEXITSTATUS b_status)), s)
        else if WIFSIGNALED b_status then
          (let sig = WTERMSIG b_status;
               s = do_sys K (Sigunblock sig) s;
               s = do_sys K (Sigaction sig SIG_DFL) s in
           case sys K Getpid s of (self, s) \<Rightarrow>
             Some (SignalledSelf sig, do_sys K (Kill (rv self) sig) s))
        else Some (Exited EXIT_FAILURE, s))
     else Some (Exited EXIT_FAILURE, s)
   }"

text \<open>Child B: finish the filesystem, then execute the submission.\<close>

definition child_b_main ::
  "'w kernel \<Rightarrow> SandboxExecutionContext \<Rightarrow> SandboxExecutionSpec \<Rightarrow> Sandbox \<Rightarrow> 'w proc
     \<Rightarrow> (proc_end \<times> 'w proc) option"
where
  "child_b_main K context spec sb s = do {
     (result, s) \<leftarrow> finalizeExecutionEnvironment K context spec sb s;
     if \<not> success result then Some (Exited EXIT_FAILURE, s) else execute K context spec s
   }"

text \<open>
  The child of \<open>createExecutionProcess\<close>: wait for the release byte, enter the user namespace, then
  the mount namespace, and fork into the PID namespace. The bind mount of the root reports its
  failure on the control descriptor, the other steps on the status pipe.
\<close>

definition enter_namespaces ::
  "'w kernel \<Rightarrow> SandboxExecutionContext \<Rightarrow> Sandbox \<Rightarrow> 'w proc \<Rightarrow> (SandboxSetupResult \<times> 'w proc) option"
where
  "enter_namespaces K context sb s = do {
     (res, s) \<leftarrow> setupUserNamespace K (control_fd context) s;
     if \<not> success res then Some (res, s) else do {
       (res, s) \<leftarrow> require_all K (context_status_fd context) Filesystem
         [Unshare CLONE_NEWNS, Mount None ''/'' None [MS_REC, MS_PRIVATE]] s;
       if \<not> success res then Some (res, s) else do {
         (res, s) \<leftarrow> require K (control_fd context) Filesystem
           (Mount (Some (root_path sb)) (root_path sb) None [MS_BIND, MS_REC]) s;
         if \<not> success res then Some (res, s)
         else require K (context_status_fd context) Namespace (Unshare CLONE_NEWPID) s
       }
     }
   }"

definition child_main ::
  "'w kernel \<Rightarrow> SandboxExecutionContext \<Rightarrow> SandboxExecutionSpec \<Rightarrow> Sandbox \<Rightarrow> int \<times> int \<Rightarrow> int \<times> int
     \<Rightarrow> 'w proc \<Rightarrow> (proc_end \<times> 'w proc) option"
where
  "child_main K context spec sb sync_pipe status_pipe s = do {
     let s = do_sys K (Close (snd sync_pipe)) s;
     let s = do_sys K (Close (fst status_pipe)) s;
     (bytes_read, s) \<leftarrow> retry K (Read (fst sync_pipe) 1) s;
     let s = do_sys K (Close (fst sync_pipe)) s;
     if rv bytes_read \<noteq> 1 then Some (Exited EXIT_FAILURE, s)
     else do {
       let execution_context = context\<lparr>context_status_fd := snd status_pipe\<rparr>;
       (res, s) \<leftarrow> enter_namespaces K execution_context sb s;
       if \<not> success res then Some (Exited EXIT_FAILURE, s)
       else case sys K Fork s of (child_b, s) \<Rightarrow>
         if rv child_b = - 1 then do {
           (_, s) \<leftarrow> failSetup K (context_status_fd execution_context) Namespace (errno s) s;
           Some (Exited EXIT_FAILURE, s)
         }
         else if rv child_b > 0 then child_a_wait K execution_context (rv child_b) s
         else child_b_main K execution_context spec sb s
     }
   }"

section \<open>The supervisor's side of the fork\<close>

definition cleanup_failed_child ::
  "'w kernel \<Rightarrow> int \<times> int \<Rightarrow> int \<times> int \<Rightarrow> int \<Rightarrow> 'w proc \<Rightarrow> (bool \<times> 'w proc) option"
where
  "cleanup_failed_child K sync_pipe status_pipe child_pid s = do {
     let s = do_sys K (Kill child_pid SIGKILL) s;
     (waited, s) \<leftarrow> retry K (Waitpid child_pid Blocking) s;
     let s = do_sys K (Close (snd sync_pipe)) s;
     let s = do_sys K (Close (fst status_pipe)) s;
     Some (rv waited = child_pid, s)
   }"

definition close_pair :: "'w kernel \<Rightarrow> int \<times> int \<Rightarrow> 'w proc \<Rightarrow> 'w proc" where
  "close_pair K p s = do_sys K (Close (snd p)) (do_sys K (Close (fst p)) s)"

text \<open>After the fork, in the parent: attach the child to its cgroup, then release it.\<close>

definition attach_and_release ::
  "'w kernel \<Rightarrow> int \<times> int \<Rightarrow> int \<times> int \<Rightarrow> int \<Rightarrow> Sandbox \<Rightarrow> 'w proc
     \<Rightarrow> ((SandboxProcess \<times> Sandbox) \<times> 'w proc) option"
where
  "attach_and_release K sync_pipe status_pipe pid sb s =
     (let s = do_sys K (Close (fst sync_pipe)) s;
          s = do_sys K (Close (snd status_pipe)) s in
      case addProcessToCgroup K pid sb s of (cgroup_result, sb, s) \<Rightarrow>
        if \<not> success cgroup_result then do {
          (_, s) \<leftarrow> cleanup_failed_child K sync_pipe status_pipe pid s;
          Some ((default_SandboxProcess, sb), s)
        }
        else do {
          (bytes_written, s) \<leftarrow> retry K (Write (snd sync_pipe) [1]) s;
          if rv bytes_written \<noteq> 1 then do {
            (_, s) \<leftarrow> cleanup_failed_child K sync_pipe status_pipe pid s;
            Some ((default_SandboxProcess, sb), s)
          }
          else
            let s = do_sys K (Close (snd sync_pipe)) s in
            Some ((\<lparr>host_pid = pid, namespace_pid = 1, status_fd = fst status_pipe\<rparr>, sb), s)
        })"

text \<open>
  The whole operation. Where \<open>fork\<close> returns zero the process is the child, which ends in
  \<open>child_main\<close> and never returns.
\<close>

definition createExecutionProcess ::
  "'w kernel \<Rightarrow> SandboxExecutionContext \<Rightarrow> SandboxExecutionSpec \<Rightarrow> Sandbox \<Rightarrow> 'w proc
     \<Rightarrow> ((SandboxProcess \<times> Sandbox) forked \<times> 'w proc) option"
where
  "createExecutionProcess K context spec sb s =
     (case sys K Pipe s of (r, s) \<Rightarrow>
      if rv r = - 1 then Some (Returns (default_SandboxProcess, sb), s) else
      let sync_pipe = reply_fds r in
      case sys K Pipe s of (r, s) \<Rightarrow>
      if rv r = - 1 then Some (Returns (default_SandboxProcess, sb), close_pair K sync_pipe s) else
      let status_pipe = reply_fds r in
      case sys K (FcntlGetfd (snd status_pipe)) s of (flags, s) \<Rightarrow>
      if rv flags = - 1 then
        Some (Returns (default_SandboxProcess, sb), close_pair K status_pipe (close_pair K sync_pipe s)) else
      case sys K (FcntlSetCloexec (snd status_pipe) (rv flags)) s of (r, s) \<Rightarrow>
      if rv r = - 1 then
        Some (Returns (default_SandboxProcess, sb), close_pair K status_pipe (close_pair K sync_pipe s)) else
      case sys K Fork s of (pid, s) \<Rightarrow>
      if rv pid = - 1 then
        Some (Returns (default_SandboxProcess, sb), close_pair K status_pipe (close_pair K sync_pipe s))
      else if rv pid = 0 then map_option (apfst Ends) (child_main K context spec sb sync_pipe status_pipe s)
      else map_option (apfst Returns) (attach_and_release K sync_pipe status_pipe (rv pid) sb s))"

section \<open>What each setup step leaves in the log\<close>

lemma setup_ok_simps [simp]:
  "success setup_ok" "\<not> success default_SandboxSetupResult"
  by (simp_all add: setup_ok_def default_SandboxSetupResult_def)

lemma failSetup_Some:
  assumes "failSetup K fd stage e s = Some (res, s')"
  shows "\<not> success res" "setup_stage res = stage" "setup_error res = e" "only (writes_to fd) s s'"
  using assms by (auto simp: failSetup_def bind_Some_conv default_SandboxSetupResult_def dest: send_message_only)

lemma require_success:
  "require K fd stage c s = Some (res, s') \<Longrightarrow> success res \<Longrightarrow> performed [c] s s'"
  by (auto simp: require_def split: prod.splits if_splits dest: failSetup_Some(1) performed_sys)

lemma require_all_success:
  "require_all K fd stage cs s = Some (res, s') \<Longrightarrow> success res \<Longrightarrow> performed cs s s'"
proof (induction cs arbitrary: s)
  case Nil
  then show ?case by (auto simp: performed_def)
next
  case (Cons c cs)
  then obtain r1 s1 where "require K fd stage c s = Some (r1, s1)" "success r1"
    "require_all K fd stage cs s1 = Some (res, s')"
    by (auto simp: bind_Some_conv split: if_splits)
  then show ?case
    using Cons performed_trans [of "[c]" s s1 cs s'] require_success by fastforce
qed

lemma write_proc_file_success:
  assumes "write_proc_file K cfd path content s = Some (res, s')" "success res"
  shows "performed [Open path O_WRONLY] s s'"
proof -
  obtain fd s1 where o: "sys K (Open path O_WRONLY) s = (fd, s1)" by fastforce
  obtain w s2 where w: "sys K (Write (rv fd) (string_bytes content)) s1 = (w, s2)" by fastforce
  from assms o w have "rv fd \<noteq> - 1" and s': "s' = do_sys K (Close (rv fd)) s2"
    by (auto simp: write_proc_file_def Let_def split: if_splits dest: failSetup_Some(1))
  have "performed [Open path O_WRONLY] s s1" using performed_sys [OF o \<open>rv fd \<noteq> - 1\<close>] .
  moreover have "performed [] s1 s2"
    using emits_sys [OF w] unfolding performed_def by blast
  ultimately show ?thesis using performed_do_sys s' performed_after by blast
qed

lemma setupUserNamespace_success:
  assumes "setupUserNamespace K cfd s = Some (res, s')" "success res"
  shows "performed [Unshare CLONE_NEWUSER, Open ''/proc/self/setgroups'' O_WRONLY,
    Open ''/proc/self/uid_map'' O_WRONLY, Open ''/proc/self/gid_map'' O_WRONLY] s s'"
proof -
  obtain uid s1 where 1: "sys K Getuid s = (uid, s1)" by fastforce
  obtain gid s2 where 2: "sys K Getgid s1 = (gid, s2)" by fastforce
  obtain u s3 where 3: "sys K (Unshare CLONE_NEWUSER) s2 = (u, s3)" by fastforce
  have u: "rv u \<noteq> - 1" using assms 1 2 3
    by (auto simp: setupUserNamespace_def dest: failSetup_Some(1))
  with assms 1 2 3 obtain r4 s4 r5 s5 where
    4: "write_proc_file K cfd ''/proc/self/setgroups'' (''deny'' @ newline) s3 = Some (r4, s4)" "success r4"
    and 5: "write_proc_file K cfd ''/proc/self/uid_map'' (id_map (rv uid)) s4 = Some (r5, s5)" "success r5"
    and 6: "write_proc_file K cfd ''/proc/self/gid_map'' (id_map (rv gid)) s5 = Some (res, s')"
    by (auto simp: setupUserNamespace_def bind_Some_conv split: if_splits)
  have "performed [] s s2"
    using emits_trans [OF emits_sys [OF 1] emits_sys [OF 2]] unfolding performed_def by blast
  also note performed_sys [OF 3 u]
  also note write_proc_file_success [OF 4]
  also note write_proc_file_success [OF 5]
  also note write_proc_file_success [OF 6 assms(2)]
  finally show ?thesis by simp
qed

lemma bind_dirs_performed: "performed [] s (bind_dirs K root dirs s)"
proof (induction dirs arbitrary: s)
  case Nil
  then show ?case by (auto simp: performed_def)
next
  case (Cons d dirs)
  let ?s1 = "do_sys K (Mkdir (root @ d) mode_755) s"
  obtain r s2 where m: "sys K (Mount (Some d) (root @ d) None [MS_BIND, MS_REC]) ?s1 = (r, s2)" by fastforce
  have "performed [] ?s1 s2" using emits_sys [OF m] unfolding performed_def by blast
  then have "performed [] s s2" using performed_do_sys performed_before by blast
  then have "performed [] s (if rv r \<noteq> - 1
      then do_sys K (Mount None (root @ d) None [MS_BIND, MS_REMOUNT, MS_RDONLY, MS_REC]) s2 else s2)"
    using performed_after performed_do_sys by (metis (full_types))
  from performed_after [OF this Cons.IH] m show ?case by (simp add: Let_def)
qed

lemma finalize_success:
  assumes "finalizeExecutionEnvironment K context spec sb s = Some (res, s')" "success res"
  shows "performed (Mount (Some (spec_executable spec)) (root_path sb @ ''/sandbox_exec'') None [MS_BIND]
    # pivot_steps (root_path sb)) s s'"
proof -
  let ?t = "root_path sb @ ''/sandbox_exec''"
  define s1 where "s1 = bind_dirs K (root_path sb) [''/lib'', ''/lib64'', ''/usr'', ''/bin''] s"
  obtain fd s2 where 2: "sys K (Creat ?t mode_755) s1 = (fd, s2)" by fastforce
  define s3 where "s3 = do_sys K (Close (rv fd)) s2"
  obtain r s4 where 4: "sys K (Mount (Some (spec_executable spec)) ?t None [MS_BIND]) s3 = (r, s4)" by fastforce
  define s5 where "s5 = do_sys K (Mount None ?t None [MS_BIND, MS_REMOUNT, MS_RDONLY]) s4"
  have r: "rv r \<noteq> - 1" and
    6: "require_all K (context_status_fd context) Filesystem (pivot_steps (root_path sb)) s5 = Some (res, s')"
    using assms 2 4 unfolding finalizeExecutionEnvironment_def s1_def [symmetric] s3_def s5_def
    by (auto simp: Let_def s1_def split: if_splits dest: failSetup_Some(1))
  have "performed [] s s2"
    using bind_dirs_performed [of s K "root_path sb"] emits_sys [OF 2] performed_after
    unfolding s1_def performed_def by (meson list_emb_Nil)
  then have "performed [] s s3" unfolding s3_def by (metis performed_after performed_do_sys)
  also note performed_sys [OF 4 r]
  also have "performed [] s4 s5" unfolding s5_def by (rule performed_do_sys)
  also note require_all_success [OF 6 assms(2)]
  finally show ?thesis by simp
qed

lemma guarded_ok: "guarded K context stage c s = Some (True, s') \<Longrightarrow> performed [c] s s'"
  by (auto simp: guarded_def bind_Some_conv split: prod.splits if_splits dest: performed_sys)

lemma guarded_all_ok: "guarded_all K context stage cs s = Some (True, s') \<Longrightarrow> performed cs s s'"
proof (induction cs arbitrary: s)
  case Nil
  then show ?case by (auto simp: performed_def)
next
  case (Cons c cs)
  then obtain s1 where "guarded K context stage c s = Some (True, s1)"
    "guarded_all K context stage cs s1 = Some (True, s')"
    by (auto simp: bind_Some_conv split: if_splits)
  then show ?case
    using Cons performed_trans [of "[c]" s s1 cs s'] guarded_ok by fastforce
qed

text \<open>The calls that must have succeeded, in this order, before the submission runs.\<close>

definition isolation_steps :: "Sandbox \<Rightarrow> SandboxExecutionSpec \<Rightarrow> syscall list" where
  "isolation_steps sb spec =
     [Unshare CLONE_NEWUSER, Open ''/proc/self/setgroups'' O_WRONLY,
      Open ''/proc/self/uid_map'' O_WRONLY, Open ''/proc/self/gid_map'' O_WRONLY,
      Unshare CLONE_NEWNS, Mount None ''/'' None [MS_REC, MS_PRIVATE],
      Mount (Some (root_path sb)) (root_path sb) None [MS_BIND, MS_REC],
      Unshare CLONE_NEWPID, Fork,
      Mount (Some (spec_executable spec)) (root_path sb @ ''/sandbox_exec'') None [MS_BIND]]
     @ pivot_steps (root_path sb)"

definition launch_steps :: "SandboxExecutionContext \<Rightarrow> SandboxExecutionSpec \<Rightarrow> syscall list" where
  "launch_steps context spec =
     [Dup2 (stdin_fd context) 0, Dup2 (stdout_fd context) 1, Dup2 (stderr_fd context) 2,
      Setrlimit RLIMIT_CPU (cpu_rlimit spec) (cpu_rlimit spec),
      Setrlimit RLIMIT_AS (spec_memory_limit spec) (spec_memory_limit spec),
      Execvp ''/sandbox_exec'' (''/sandbox_exec'' # spec_args spec)]"

lemma execute_Execed:
  assumes "execute K context spec s = Some (Execed p a, s')"
  shows "p = ''/sandbox_exec'' \<and> a = ''/sandbox_exec'' # spec_args spec \<and>
    performed (launch_steps context spec) s s'"
proof -
  let ?argv = "''/sandbox_exec'' # spec_args spec"
  let ?cl = "\<lambda>s. do_sys K (Close (stderr_fd context)) (do_sys K (Close (stdout_fd context))
    (do_sys K (Close (stdin_fd context)) s))"
  let ?io = "[Dup2 (stdin_fd context) 0, Dup2 (stdout_fd context) 1, Dup2 (stderr_fd context) 2]"
  let ?rl = "[Setrlimit RLIMIT_CPU (cpu_rlimit spec) (cpu_rlimit spec),
        Setrlimit RLIMIT_AS (spec_memory_limit spec) (spec_memory_limit spec)]"
  obtain s1 where 1: "guarded_all K context StandardIO ?io s = Some (True, s1)"
    using assms unfolding execute_def Let_def
    by (auto simp del: guarded_all.simps elim!: bind_SomeE split: if_splits)
  obtain s2 where 2: "guarded_all K context ResourceLimit ?rl (?cl s1) = Some (True, s2)"
    using assms 1 unfolding execute_def Let_def
    by (auto simp del: guarded_all.simps elim!: bind_SomeE split: if_splits)
  have 3: "guarded K context Exec (Execvp ''/sandbox_exec'' ?argv) s2 = Some (True, s') \<and>
      p = ''/sandbox_exec'' \<and> a = ?argv"
    using assms 1 2 unfolding execute_def Let_def
    by (auto simp del: guarded_all.simps elim!: bind_SomeE split: if_splits)
  note guarded_all_ok [OF 1]
  also have "performed [] s1 (?cl s1)" by (meson performed_after performed_do_sys)
  also note guarded_all_ok [OF 2]
  also note guarded_ok [OF conjunct1 [OF 3]]
  finally show ?thesis using 3 by (simp add: launch_steps_def)
qed

lemma enter_namespaces_success:
  assumes "enter_namespaces K context sb s = Some (res, s')" "success res"
  shows "performed [Unshare CLONE_NEWUSER, Open ''/proc/self/setgroups'' O_WRONLY,
      Open ''/proc/self/uid_map'' O_WRONLY, Open ''/proc/self/gid_map'' O_WRONLY,
      Unshare CLONE_NEWNS, Mount None ''/'' None [MS_REC, MS_PRIVATE],
      Mount (Some (root_path sb)) (root_path sb) None [MS_BIND, MS_REC], Unshare CLONE_NEWPID] s s'"
proof -
  from assms obtain r1 s1 r2 s2 r3 s3 where
    1: "setupUserNamespace K (control_fd context) s = Some (r1, s1)" "success r1"
    and 2: "require_all K (context_status_fd context) Filesystem
       [Unshare CLONE_NEWNS, Mount None ''/'' None [MS_REC, MS_PRIVATE]] s1 = Some (r2, s2)" "success r2"
    and 3: "require K (control_fd context) Filesystem
       (Mount (Some (root_path sb)) (root_path sb) None [MS_BIND, MS_REC]) s2 = Some (r3, s3)" "success r3"
    and 4: "require K (context_status_fd context) Namespace (Unshare CLONE_NEWPID) s3 = Some (res, s')"
    by (auto simp: enter_namespaces_def bind_Some_conv simp del: require_all.simps split: if_splits)
  note setupUserNamespace_success [OF 1]
  also note require_all_success [OF 2]
  also note require_success [OF 3]
  also note require_success [OF 4 assms(2)]
  finally show ?thesis by simp
qed

lemma child_a_wait_not_Execed: "child_a_wait K context b s = Some (e, s') \<Longrightarrow> e \<noteq> Execed p a"
  by (auto simp: child_a_wait_def bind_Some_conv Let_def split: if_splits prod.splits)

lemma child_main_Execed:
  assumes "child_main K context spec sb sync_pipe status_pipe s = Some (Execed p a, s')"
  shows "p = ''/sandbox_exec'' \<and> a = ''/sandbox_exec'' # spec_args spec \<and>
    performed (Read (fst sync_pipe) 1 # isolation_steps sb spec @ launch_steps context spec) s s'"
proof -
  define s1 where "s1 = do_sys K (Close (fst status_pipe)) (do_sys K (Close (snd sync_pipe)) s)"
  define ctx where "ctx = context\<lparr>context_status_fd := snd status_pipe\<rparr>"
  from assms obtain b s2 r s3 f s4 r5 s5 where
    2: "retry K (Read (fst sync_pipe) 1) s1 = Some (b, s2)" "rv b = 1"
    and 3: "enter_namespaces K ctx sb (do_sys K (Close (fst sync_pipe)) s2) = Some (r, s3)" "success r"
    and 4: "sys K Fork s3 = (f, s4)" "rv f \<noteq> - 1"
    and 5: "finalizeExecutionEnvironment K ctx spec sb s4 = Some (r5, s5)" "success r5"
    and 6: "execute K ctx spec s5 = Some (Execed p a, s')"
    unfolding child_main_def Let_def s1_def [symmetric] ctx_def [symmetric] child_b_main_def
    by (auto simp: bind_Some_conv split: if_splits prod.splits dest: child_a_wait_not_Execed)
  have "performed [] s s1" unfolding s1_def by (meson performed_after performed_do_sys)
  also have "performed [Read (fst sync_pipe) 1] s1 s2" using performed_retry [OF 2(1)] 2(2) by simp
  also have "performed [] s2 (do_sys K (Close (fst sync_pipe)) s2)" by (rule performed_do_sys)
  also note enter_namespaces_success [OF 3]
  also note performed_sys [OF 4]
  also note finalize_success [OF 5]
  also note conjunct2 [OF conjunct2 [OF execute_Execed [OF 6]]]
  finally show ?thesis using execute_Execed [OF 6]
    by (simp add: isolation_steps_def launch_steps_def ctx_def)
qed

section \<open>Isolation\<close>

text \<open>
  C1. Whatever the kernel answers, a process forked by \<open>createExecutionProcess\<close> executes a program
  only after it was released through the synchronisation pipe and every step of the isolation
  succeeded, in the order of the source: user namespace and identity maps, mount namespace, private
  propagation, the bind-mounted root, PID namespace, the executable's bind mount, \<open>pivot_root\<close> with
  the old root detached and removed, \<open>/proc\<close>, the three standard descriptors, and both resource
  limits set to the limits of the specification. The program it executes is \<open>/sandbox_exec\<close> with the
  arguments of the specification.
\<close>

theorem submission_isolated:
  assumes "createExecutionProcess K context spec sb s = Some (Ends (Execed p a), s')"
  shows "p = ''/sandbox_exec'' \<and> a = ''/sandbox_exec'' # spec_args spec \<and>
    (\<exists>release. performed ([Pipe, Pipe, Fork, Read release 1]
       @ isolation_steps sb spec @ launch_steps context spec) s s')"
proof -
  obtain r1 s1 where 1: "sys K Pipe s = (r1, s1)" by fastforce
  obtain r2 s2 where 2: "sys K Pipe s1 = (r2, s2)" by fastforce
  let ?w = "snd (reply_fds r2)"
  obtain r3 s3 where 3: "sys K (FcntlGetfd ?w) s2 = (r3, s3)" by fastforce
  obtain r4 s4 where 4: "sys K (FcntlSetCloexec ?w (rv r3)) s3 = (r4, s4)" by fastforce
  obtain r5 s5 where 5: "sys K Fork s4 = (r5, s5)" by fastforce
  from assms 1 2 3 4 5 have ok: "rv r1 \<noteq> - 1" "rv r2 \<noteq> - 1" "rv r5 = 0"
    and c: "child_main K context spec sb (reply_fds r1) (reply_fds r2) s5 = Some (Execed p a, s')"
    by (auto simp: createExecutionProcess_def Let_def apfst_def map_prod_def split: if_splits)
  have "performed [] s2 s4"
    using emits_trans [OF emits_sys [OF 3] emits_sys [OF 4]] unfolding performed_def by blast
  with performed_sys [OF 1 ok(1)] performed_sys [OF 2 ok(2)] performed_sys [OF 5] ok(3)
  have "performed ([Pipe] @ [Pipe] @ [] @ [Fork]) s s5"
    by (metis performed_trans zero_neq_neg_one)
  from performed_trans [OF this conjunct2 [OF conjunct2 [OF child_main_Execed [OF c]]]]
  show ?thesis using child_main_Execed [OF c] by auto
qed

definition demo_context :: SandboxExecutionContext where
  "demo_context = \<lparr>stdin_fd = 10, stdout_fd = 13, stderr_fd = 15, control_fd = 9, context_status_fd = - 1\<rparr>"

definition demo_spec :: SandboxExecutionSpec where
  "demo_spec = \<lparr>spec_executable = ''/judge/solution'', spec_args = [''x''], spec_cpu_limit = 1,
     spec_memory_limit = 1024\<rparr>"

definition demo_sandbox :: Sandbox where
  "demo_sandbox = \<lparr>config = default_SandboxConfig, root_path = ''/r'', cgroup_path = ''/c''\<rparr>"

lemmas sandbox_eval = demo_context_def demo_spec_def demo_sandbox_def createExecutionProcess_def
  child_main_def enter_namespaces_def setupUserNamespace_def write_proc_file_def require_def
  child_b_main_def finalizeExecutionEnvironment_def pivot_steps_def execute_def guarded_def

lemma demo_child_executes:
  "\<exists>s'. createExecutionProcess obliging demo_context demo_spec demo_sandbox (boot ()) =
     Some (Ends (Execed ''/sandbox_exec'' [''/sandbox_exec'', ''x'']), s')"
  by (simp add: sandbox_eval sys_eval cong: eval_congs)

theorem submission_isolated_witness:
  "\<exists>s' release. createExecutionProcess obliging demo_context demo_spec demo_sandbox (boot ()) =
     Some (Ends (Execed ''/sandbox_exec'' [''/sandbox_exec'', ''x'']), s') \<and>
     performed ([Pipe, Pipe, Fork, Read release 1]
       @ isolation_steps demo_sandbox demo_spec @ launch_steps demo_context demo_spec) (boot ()) s'"
  using demo_child_executes submission_isolated by blast

section \<open>Containment before release\<close>

lemma to_decimal_digits: "c \<in> set (to_decimal n) \<Longrightarrow> 48 \<le> (of_char c :: nat)"
proof (induction n rule: to_decimal.induct)
  case (1 n)
  have last: "48 \<le> (of_char (digit_char (n mod 10)) :: nat)" by (subst of_digit_char) auto
  from 1 show ?case
    by (cases "n < 10") (use last in \<open>auto simp: to_decimal.simps [of n] of_digit_char split: if_splits\<close>)
qed

lemma decimal_not_release: "string_bytes (to_decimal_int i) \<noteq> [1]"
proof
  assume "string_bytes (to_decimal_int i) = [1]"
  then obtain c where c: "to_decimal_int i = [c]" and "(word_of_nat (of_char c) :: byte) = 1"
    by (auto simp: string_bytes_def)
  then have "unat (word_of_nat (of_char c) :: byte) = 1" by simp
  moreover have "(of_char c :: nat) < 256" by simp
  ultimately have "of_char c = (1 :: nat)" by (simp add: unat_of_nat take_bit_eq_mod)
  moreover have "c = CHR ''-'' \<or> c \<in> set (to_decimal (nat i))"
    using c by (auto simp: to_decimal_int_def split: if_splits)
  ultimately show False using to_decimal_digits by fastforce
qed

text \<open>The log attached a process to a cgroup: its pid was written, whole, to \<open>cgroup.procs\<close>.\<close>

definition attached :: "int \<Rightarrow> string \<Rightarrow> call_log \<Rightarrow> bool" where
  "attached pid path log \<longleftrightarrow> (\<exists>r w.
     (Open (path @ ''/cgroup.procs'') O_WRONLY, r) \<in> set log \<and> rv r \<noteq> - 1 \<and>
     (Write (rv r) (string_bytes (to_decimal_int pid)), w) \<in> set log \<and>
     rv w = int (length (to_decimal_int pid)))"

lemma attached_mono: "attached pid path log \<Longrightarrow> set log \<subseteq> set log' \<Longrightarrow> attached pid path log'"
  unfolding attached_def by blast

definition no_release :: "syscall \<Rightarrow> bool" where
  "no_release c \<longleftrightarrow> (\<forall>f. c \<noteq> Write f [1])"

lemma addProcessToCgroup_log:
  assumes "addProcessToCgroup K pid sb s = (res, sb', s')"
  shows "\<exists>new. emits s new s' \<and> (\<forall>x \<in> set new. no_release (fst x)) \<and>
    (success res \<longrightarrow> cgroup_path sb' = [] \<or> sb' = sb \<and> attached pid (cgroup_path sb) new)"
proof (cases "cgroup_path sb = []")
  case True
  with assms show ?thesis by (auto simp: addProcessToCgroup_def intro: exI [of _ "[]"])
next
  case False
  obtain fd s1 where 1: "sys K (Open (cgroup_path sb @ ''/cgroup.procs'') O_WRONLY) s = (fd, s1)" by fastforce
  let ?c = "Write (rv fd) (string_bytes (to_decimal_int pid))"
  obtain w s2 where 2: "sys K ?c s1 = (w, s2)" by fastforce
  note e1 = emits_sys [OF 1]
  note e2 = emits_trans [OF e1 emits_sys [OF 2]]
  let ?new = "[(Open (cgroup_path sb @ ''/cgroup.procs'') O_WRONLY, fd), (?c, w),
     (Close (rv fd), fst (K (Close (rv fd)) (world s2)))]"
  have e3: "emits s ?new (do_sys K (Close (rv fd)) s2)"
    using e2 by (simp add: emits_def)
  show ?thesis
  proof (cases "rv fd = - 1")
    case True
    with assms False 1 show ?thesis
      by (intro exI [of _ "[(Open (cgroup_path sb @ ''/cgroup.procs'') O_WRONLY, fd)]"])
        (auto simp: addProcessToCgroup_def no_release_def split: if_splits dest: emits_sys)
  next
    case ok: False
    have "s' = do_sys K (Close (rv fd)) s2"
      using assms False 1 2 ok by (auto simp: addProcessToCgroup_def Let_def split: if_splits)
    moreover have "success res \<longrightarrow> cgroup_path sb' = [] \<or>
        sb' = sb \<and> rv w = int (length (to_decimal_int pid))"
      using assms False 1 2 ok by (auto simp: addProcessToCgroup_def Let_def split: if_splits)
    ultimately show ?thesis using e3 ok decimal_not_release
      by (intro exI [of _ ?new]) (auto simp: attached_def no_release_def)
  qed
qed

definition plain :: "syscall \<Rightarrow> bool" where
  "plain c \<longleftrightarrow> c \<noteq> Pipe \<and> c \<noteq> Fork"

lemma plain_simps [simp]:
  "plain (Open p m)" "plain (Write fd bs)" "plain (Close fd)" "plain (Kill pid sg)" "plain (Waitpid pid w)"
  by (simp_all add: plain_def)

definition no_write :: "syscall \<Rightarrow> bool" where
  "no_write c \<longleftrightarrow> (\<forall>fd bs. c \<noteq> Write fd bs)"

lemma no_write_no_release: "no_write c \<Longrightarrow> no_release c"
  by (simp add: no_write_def no_release_def)

lemma cleanup_failed_child_log:
  assumes "cleanup_failed_child K sync_pipe status_pipe pid s = Some (ok, s')"
  shows "\<exists>new. emits s new s' \<and> (\<forall>x \<in> set new. no_write (fst x) \<and> plain (fst x)) \<and>
    Kill pid SIGKILL \<in> fst ` set new \<and> Waitpid pid Blocking \<in> fst ` set new \<and>
    Close (snd sync_pipe) \<in> fst ` set new \<and> Close (fst status_pipe) \<in> fst ` set new"
proof -
  let ?s1 = "do_sys K (Kill pid SIGKILL) s"
  obtain w s2 where 2: "retry K (Waitpid pid Blocking) ?s1 = Some (w, s2)"
    and s': "s' = do_sys K (Close (fst status_pipe)) (do_sys K (Close (snd sync_pipe)) s2)"
    using assms unfolding cleanup_failed_child_def Let_def by (auto elim!: bind_SomeE)
  obtain n where "emits ?s1 (replicate n (Waitpid pid Blocking, Fail EINTR) @ [(Waitpid pid Blocking, w)]) s2"
    using retry_Some [OF 2] by blast
  then have "\<exists>a b c. emits s ((Kill pid SIGKILL, a) # replicate n (Waitpid pid Blocking, Fail EINTR) @
      [(Waitpid pid Blocking, w), (Close (snd sync_pipe), b), (Close (fst status_pipe), c)]) s'"
    unfolding s' by (simp add: emits_def)
  then show ?thesis
    by (elim exE) (rule exI, rule conjI, assumption, auto simp: no_write_def)
qed

text \<open>The log after the fork splits at the attachment: no release byte before it.\<close>

lemma attach_and_release_log:
  assumes "attach_and_release K sync_pipe status_pipe pid sb s = Some ((p, sb'), s')"
  shows "\<exists>A B. emits s (A @ B) s' \<and> (\<forall>x \<in> set A. no_release (fst x)) \<and>
    (cgroup_path sb' = [] \<or> attached pid (cgroup_path sb) A \<or> (\<forall>x \<in> set B. no_release (fst x)))"
proof -
  let ?s1 = "do_sys K (Close (snd status_pipe)) (do_sys K (Close (fst sync_pipe)) s)"
  obtain res sb1 s2 where a: "addProcessToCgroup K pid sb ?s1 = (res, sb1, s2)" by (metis prod_cases3)
  obtain new where new: "emits ?s1 new s2" "\<forall>x \<in> set new. no_release (fst x)"
    "success res \<longrightarrow> cgroup_path sb1 = [] \<or> sb1 = sb \<and> attached pid (cgroup_path sb) new"
    using addProcessToCgroup_log [OF a] by blast
  obtain A where A: "emits s A s2" "\<forall>x \<in> set A. no_release (fst x)" "set new \<subseteq> set A"
  proof (rule that)
    show "emits s ([(Close (fst sync_pipe), fst (K (Close (fst sync_pipe)) (world s))),
      (Close (snd status_pipe), fst (K (Close (snd status_pipe)) (world (do_sys K (Close (fst sync_pipe)) s))))] @ new) s2"
      using new(1) by (simp add: emits_def)
  qed (use new(2) in \<open>auto simp: no_release_def\<close>)
  show ?thesis
  proof (cases "success res")
    case False
    with assms a obtain ok where "cleanup_failed_child K sync_pipe status_pipe pid s2 = Some (ok, s')"
      by (auto simp: attach_and_release_def Let_def elim!: bind_SomeE)
    from cleanup_failed_child_log [OF this] A show ?thesis
      by (meson emits_trans no_write_no_release)
  next
    case True
    have "sb' = sb1" using assms a True
      by (auto simp: attach_and_release_def Let_def elim!: bind_SomeE split: if_splits)
    moreover have "\<exists>B. emits s2 B s'"
    proof -
      obtain r s3 where r: "retry K (Write (snd sync_pipe) [1]) s2 = Some (r, s3)"
        using assms a True by (auto simp: attach_and_release_def Let_def elim!: bind_SomeE)
      then obtain B3 where B3: "emits s2 B3 s3" using retry_Some by blast
      show ?thesis
      proof (cases "rv r = 1")
        case True
        with assms a \<open>success res\<close> r have "s' = do_sys K (Close (snd sync_pipe)) s3"
          by (auto simp: attach_and_release_def Let_def elim!: bind_SomeE)
        with B3 show ?thesis by (auto simp: emits_def)
      next
        case False
        with assms a \<open>success res\<close> r obtain ok where
          "cleanup_failed_child K sync_pipe status_pipe pid s3 = Some (ok, s')"
          by (auto simp: attach_and_release_def Let_def elim!: bind_SomeE)
        with B3 show ?thesis by (meson cleanup_failed_child_log emits_trans)
      qed
    qed
    ultimately show ?thesis using A new(3) True attached_mono emits_trans by metis
  qed
qed

lemma split_after:
  assumes "A @ B = pre @ x # post" "x \<notin> set A"
  shows "\<exists>C. pre = A @ C"
proof -
  from assms(1) consider us where "A = pre @ us" "us @ B = x # post" | us where "pre = A @ us"
    by (auto simp: append_eq_append_conv2)
  then show ?thesis
  proof cases
    case 1
    with assms(2) show ?thesis by (cases us) auto
  qed blast
qed

text \<open>
  C2. In the supervisor, whatever the kernel answers, a release byte is written to a child only after
  the child's pid was written, whole, to \<open>cgroup.procs\<close> of the sandbox's cgroup, unless the sandbox
  has given up its cgroup (\<open>cgroup_path\<close> empty: the kernel refused access, or there was none).
\<close>

theorem release_after_attach:
  assumes "createExecutionProcess K context spec sb s = Some (Returns (p, sb'), s')"
    and "emits s (pre @ (Write f [1], r) # post) s'" "cgroup_path sb' \<noteq> []"
  shows "\<exists>pid. (Fork, pid) \<in> set pre \<and> attached (rv pid) (cgroup_path sb) pre"
proof -
  obtain r1 s1 where 1: "sys K Pipe s = (r1, s1)" by fastforce
  obtain r2 s2 where 2: "sys K Pipe s1 = (r2, s2)" by fastforce
  let ?w = "snd (reply_fds r2)"
  obtain r3 s3 where 3: "sys K (FcntlGetfd ?w) s2 = (r3, s3)" by fastforce
  obtain r4 s4 where 4: "sys K (FcntlSetCloexec ?w (rv r3)) s3 = (r4, s4)" by fastforce
  obtain r5 s5 where 5: "sys K Fork s4 = (r5, s5)" by fastforce
  let ?A0 = "[(Pipe, r1), (Pipe, r2), (FcntlGetfd ?w, r3), (FcntlSetCloexec ?w (rv r3), r4), (Fork, r5)]"
  have e5: "emits s ?A0 s5"
    using sys_calls [OF 1] sys_calls [OF 2] sys_calls [OF 3] sys_calls [OF 4] sys_calls [OF 5]
    by (simp add: emits_def)
  have x: "(Write f [1], r) \<in> set (drop (length (calls s)) (calls s'))"
    using assms(2) by (simp add: emits_def)
  from assms(1) 1 2 3 4 5 x consider
    "attach_and_release K (reply_fds r1) (reply_fds r2) (rv r5) sb s5 = Some ((p, sb'), s')"
    by (auto simp: createExecutionProcess_def Let_def close_pair_def apfst_def map_prod_def
        split: if_splits dest!: sys_calls)
  then show ?thesis
  proof cases
    case 1
    from attach_and_release_log [OF this] obtain A B where
      AB: "emits s5 (A @ B) s'" "\<forall>x \<in> set A. no_release (fst x)"
        "attached (rv r5) (cgroup_path sb) A \<or> (\<forall>x \<in> set B. no_release (fst x))"
      using assms(3) by blast
    have eq: "(?A0 @ A) @ B = pre @ (Write f [1], r) # post"
      using emits_trans [OF e5 AB(1)] assms(2) by (simp add: emits_def)
    have "(Write f [1], r) \<notin> set (?A0 @ A)"
      using AB(2) by (auto simp: no_release_def)
    from split_after [OF eq this] obtain C where C: "pre = (?A0 @ A) @ C" by blast
    with eq have "(Write f [1], r) \<in> set B" by auto
    with AB(3) have "attached (rv r5) (cgroup_path sb) A" by (auto simp: no_release_def)
    then have "attached (rv r5) (cgroup_path sb) pre" by (rule attached_mono) (auto simp: C)
    then show ?thesis using C by auto
  qed
qed

lemma demo_create_log:
  "\<exists>s'. createExecutionProcess (scripted (Ret 0)) demo_context demo_spec demo_sandbox
      (boot [Fds 3 4, Fds 5 6, Ret 0, Ret 0, Ret 42, Ret 0, Ret 0, Ret 7, Ret 2, Ret 0, Ret 1]) =
    Some (Returns (\<lparr>host_pid = 42, namespace_pid = 1, status_fd = 5\<rparr>, demo_sandbox), s') \<and>
    emits (boot w) ([(Pipe, Fds 3 4), (Pipe, Fds 5 6), (FcntlGetfd 6, Ret 0), (FcntlSetCloexec 6 0, Ret 0),
      (Fork, Ret 42), (Close 3, Ret 0), (Close 6, Ret 0), (Open ''/c/cgroup.procs'' O_WRONLY, Ret 7),
      (Write 7 (string_bytes ''42''), Ret 2), (Close 7, Ret 0)] @ (Write 4 [1], Ret 1) # [(Close 4, Ret 0)]) s'"
  by (simp add: createExecutionProcess_def attach_and_release_def addProcessToCgroup_def demo_sandbox_def
      setup_ok_def default_SandboxSetupResult_def emits_def to_decimal_int_def to_decimal.simps digit_char_def string_bytes_def
      sys_eval cong: eval_congs)

theorem release_after_attach_witness:
  "\<exists>s' pre post. createExecutionProcess (scripted (Ret 0)) demo_context demo_spec demo_sandbox
      (boot [Fds 3 4, Fds 5 6, Ret 0, Ret 0, Ret 42, Ret 0, Ret 0, Ret 7, Ret 2, Ret 0, Ret 1]) =
    Some (Returns (\<lparr>host_pid = 42, namespace_pid = 1, status_fd = 5\<rparr>, demo_sandbox), s') \<and>
    calls s' = pre @ (Write 4 [1], Ret 1) # post \<and>
    (\<exists>pid. (Fork, pid) \<in> set pre \<and> attached (rv pid) ''/c'' pre)"
proof -
  let ?w = "[Fds 3 4, Fds 5 6, Ret 0, Ret 0, Ret 42, Ret 0, Ret 0, Ret 7, Ret 2, Ret 0, Ret 1]"
  have path: "cgroup_path demo_sandbox = ''/c''" by (simp add: demo_sandbox_def)
  from demo_create_log [of ?w] obtain s' pre post where
    c: "createExecutionProcess (scripted (Ret 0)) demo_context demo_spec demo_sandbox (boot ?w) =
      Some (Returns (\<lparr>host_pid = 42, namespace_pid = 1, status_fd = 5\<rparr>, demo_sandbox), s')"
    and e: "emits (boot ?w) (pre @ (Write 4 [1], Ret 1) # post) s'" by blast
  have "\<exists>pid. (Fork, pid) \<in> set pre \<and> attached (rv pid) ''/c'' pre"
    using release_after_attach [OF c e] path by simp
  with c e show ?thesis by (auto simp: emits_def boot_simps)
qed

text \<open>The descriptors a log obtained from \<open>pipe\<close> and those it closed.\<close>

definition pipe_fds :: "call_log \<Rightarrow> int set" where
  "pipe_fds log = {fd. \<exists>a b. (Pipe, Fds a b) \<in> set log \<and> (fd = int a \<or> fd = int b)}"

definition closed_fds :: "call_log \<Rightarrow> int set" where
  "closed_fds log = {fd. \<exists>r. (Close fd, r) \<in> set log}"

lemma fds_simps [simp, log_simps]:
  "pipe_fds [] = {}" "closed_fds [] = {}"
  "pipe_fds (xs @ ys) = pipe_fds xs \<union> pipe_fds ys"
  "closed_fds (xs @ ys) = closed_fds xs \<union> closed_fds ys"
  "closed_fds ((c, r) # log) = (case c of Close fd \<Rightarrow> {fd} | _ \<Rightarrow> {}) \<union> closed_fds log"
  "pipe_fds ((c, r) # log) = (case (c, r) of (Pipe, Fds a b) \<Rightarrow> {int a, int b} | _ \<Rightarrow> {}) \<union> pipe_fds log"
  by (auto simp: pipe_fds_def closed_fds_def split: syscall.splits reply.splits)

lemma plain_pipe_fds: "\<forall>x \<in> set log. plain (fst x) \<Longrightarrow> pipe_fds log = {}"
  by (auto simp: pipe_fds_def plain_def)

lemma addProcessToCgroup_plain:
  assumes "addProcessToCgroup K pid sb s = (res, sb', s')"
  shows "only plain s s'"
proof -
  obtain fd s1 where 1: "sys K (Open (cgroup_path sb @ ''/cgroup.procs'') O_WRONLY) s = (fd, s1)" by fastforce
  obtain w s2 where 2: "sys K (Write (rv fd) (string_bytes (to_decimal_int pid))) s1 = (w, s2)" by fastforce
  have a: "only plain s s1" using only_sys [OF _ 1] by simp
  moreover have "only plain s (do_sys K (Close (rv fd)) s2)"
    by (rule only_trans [OF only_trans [OF a only_sys [OF _ 2]] only_do_sys]) simp_all
  ultimately show ?thesis using assms 1 2
    by (auto simp: addProcessToCgroup_def Let_def split: if_splits)
qed

text \<open>What the parent has closed when \<open>attach_and_release\<close> returns, and what it did to the child.\<close>

lemma attach_and_release_closes:
  assumes "attach_and_release K sync_pipe status_pipe pid sb s = Some ((p, sb'), s')"
  shows "\<exists>new. emits s new s' \<and> (\<forall>x \<in> set new. plain (fst x)) \<and>
    {fst sync_pipe, snd sync_pipe, snd status_pipe} \<subseteq> closed_fds new \<and>
    (host_pid p = pid \<and> status_fd p = fst status_pipe \<or>
     p = default_SandboxProcess \<and> fst status_pipe \<in> closed_fds new \<and>
     Kill pid SIGKILL \<in> fst ` set new \<and> Waitpid pid Blocking \<in> fst ` set new)"
proof -
  let ?s1 = "do_sys K (Close (snd status_pipe)) (do_sys K (Close (fst sync_pipe)) s)"
  obtain res sb1 s2 where a: "addProcessToCgroup K pid sb ?s1 = (res, sb1, s2)" by (metis prod_cases3)
  have "only plain s s2"
    by (rule only_trans [OF only_trans [OF only_do_sys only_do_sys] addProcessToCgroup_plain [OF a]]) simp_all
  then obtain A where A: "emits s A s2" "\<forall>x \<in> set A. plain (fst x)" by (auto simp: only_def)
  have "\<exists>b c new. calls s2 = calls s @ (Close (fst sync_pipe), b) # (Close (snd status_pipe), c) # new"
    using addProcessToCgroup_log [OF a] by (auto simp: emits_def)
  with A(1) have c2: "fst sync_pipe \<in> closed_fds A" "snd status_pipe \<in> closed_fds A"
    by (auto simp: emits_def)
  have fail: ?thesis if A': "emits s A' s3" "\<forall>x \<in> set A'. plain (fst x)" "set A \<subseteq> set A'"
    and c: "cleanup_failed_child K sync_pipe status_pipe pid s3 = Some (ok, s')"
    and p: "p = default_SandboxProcess" for A' s3 ok
  proof -
    obtain n where n: "emits s3 n s'" "\<forall>x \<in> set n. no_write (fst x) \<and> plain (fst x)" "Kill pid SIGKILL \<in> fst ` set n"
      "Waitpid pid Blocking \<in> fst ` set n" "Close (snd sync_pipe) \<in> fst ` set n"
      "Close (fst status_pipe) \<in> fst ` set n"
      using cleanup_failed_child_log [OF c] by blast
    have "snd sync_pipe \<in> closed_fds n" "fst status_pipe \<in> closed_fds n"
      using n(5,6) by (force simp: closed_fds_def)+
    moreover have "closed_fds A \<subseteq> closed_fds A'" using A'(3) by (auto simp: closed_fds_def)
    ultimately show ?thesis using A'(2) n c2 p emits_trans [OF A'(1) n(1)]
      by (intro exI [of _ "A' @ n"]) auto
  qed
  show ?thesis
  proof (cases "success res")
    case False
    with assms a obtain ok where "cleanup_failed_child K sync_pipe status_pipe pid s2 = Some (ok, s')"
      "p = default_SandboxProcess"
      by (auto simp: attach_and_release_def Let_def elim!: bind_SomeE)
    with fail [OF A] show ?thesis by blast
  next
    case True
    obtain r s3 where r: "retry K (Write (snd sync_pipe) [1]) s2 = Some (r, s3)"
      using assms a True by (auto simp: attach_and_release_def Let_def elim!: bind_SomeE)
    obtain B where B: "emits s2 B s3" "\<forall>x \<in> set B. plain (fst x)"
      using retry_only [OF r, of plain] by (auto simp: only_def)
    show ?thesis
    proof (cases "rv r = 1")
      case True
      with assms a \<open>success res\<close> r have s': "s' = do_sys K (Close (snd sync_pipe)) s3"
        and p: "p = \<lparr>host_pid = pid, namespace_pid = 1, status_fd = fst status_pipe\<rparr>"
        by (auto simp: attach_and_release_def Let_def elim!: bind_SomeE)
      with A B c2 show ?thesis
        by (intro exI [of _ "A @ B @ [(Close (snd sync_pipe), fst (K (Close (snd sync_pipe)) (world s3)))]"])
          (auto simp: emits_def)
    next
      case False
      with assms a \<open>success res\<close> r obtain ok where
        c: "cleanup_failed_child K sync_pipe status_pipe pid s3 = Some (ok, s')"
        and p: "p = default_SandboxProcess"
        by (auto simp: attach_and_release_def Let_def elim!: bind_SomeE)
      show ?thesis
        by (rule fail [OF emits_trans [OF A(1) B(1)] _ _ c p]) (use A(2) B(2) in auto)
    qed
  qed
qed

text \<open>
  C5. When \<open>createExecutionProcess\<close> returns without a process, whatever the kernel answered, every
  descriptor it obtained from \<open>pipe\<close> has been closed, and a child it forked has been killed and
  waited for: the failed creation leaks neither descriptors nor a process.
\<close>

theorem failed_creation_cleans_up:
  assumes "createExecutionProcess K context spec sb s = Some (Returns (p, sb'), s')"
    and "host_pid p \<le> 0" "emits s new s'"
  shows "pipe_fds new \<subseteq> closed_fds new \<and>
    (\<forall>pid. (Fork, pid) \<in> set new \<longrightarrow> rv pid = - 1 \<or>
       Kill (rv pid) SIGKILL \<in> fst ` set new \<and> Waitpid (rv pid) Blocking \<in> fst ` set new)"
proof -
  obtain r1 s1 where 1: "sys K Pipe s = (r1, s1)" by fastforce
  obtain r2 s2 where 2: "sys K Pipe s1 = (r2, s2)" by fastforce
  let ?w = "snd (reply_fds r2)"
  obtain r3 s3 where 3: "sys K (FcntlGetfd ?w) s2 = (r3, s3)" by fastforce
  obtain r4 s4 where 4: "sys K (FcntlSetCloexec ?w (rv r3)) s3 = (r4, s4)" by fastforce
  obtain r5 s5 where 5: "sys K Fork s4 = (r5, s5)" by fastforce
  note log = sys_calls [OF 1] sys_calls [OF 2] sys_calls [OF 3] sys_calls [OF 4] sys_calls [OF 5]
  have fds: "pipe_fds ((Pipe, r) # log) \<subseteq> {fst (reply_fds r), snd (reply_fds r)} \<union> pipe_fds log" for r log
    by (cases r) auto
  have failed: "pipe_fds ((Pipe, r) # log) = pipe_fds log" if "rv r = - 1" for r log
    using that by (cases r) auto
  note run = assms(1) [unfolded createExecutionProcess_def Let_def 1 2 3 4 5 prod.case]
  show ?thesis
  proof (cases "rv r1 = - 1 \<or> rv r2 = - 1 \<or> rv r3 = - 1 \<or> rv r4 = - 1 \<or> rv r5 = - 1")
    case True
    then consider (p1) "rv r1 = - 1" | (p2) "rv r1 \<noteq> - 1" "rv r2 = - 1"
      | (rest) "rv r1 \<noteq> - 1" "rv r2 \<noteq> - 1" by blast
    then show ?thesis
    proof cases
      case p1
      with run have "s' = s1" by simp
      with log assms(3) have "new = [(Pipe, r1)]" by (simp add: emits_def)
      with p1 show ?thesis by (simp add: failed del: fds_simps(6))
    next
      case p2
      with run have "s' = close_pair K (reply_fds r1) s2" by simp
      with log assms(3) obtain a b where "new = [(Pipe, r1), (Pipe, r2), (Close (fst (reply_fds r1)), a),
        (Close (snd (reply_fds r1)), b)]" by (auto simp: emits_def close_pair_def)
      with p2 fds [of r1] show ?thesis by (auto simp: failed pipe_fds_def)
    next
      case rest
      let ?cl = "\<lambda>t. close_pair K (reply_fds r2) (close_pair K (reply_fds r1) t)"
      have "s' = ?cl s3 \<or> s' = ?cl s4 \<or> s' = ?cl s5 \<and> rv r5 = - 1"
        using rest run True by (auto split: if_splits)
      then obtain m where m: "calls s' = calls s @ [(Pipe, r1), (Pipe, r2)] @ m"
        "\<forall>x \<in> set m. fst x \<noteq> Pipe" "\<forall>pid. (Fork, pid) \<in> set m \<longrightarrow> rv pid = - 1"
        "{fst (reply_fds r1), snd (reply_fds r1), fst (reply_fds r2), snd (reply_fds r2)} \<subseteq> closed_fds m"
        using log by (elim disjE) (auto simp: close_pair_def)
      with assms(3) have "new = [(Pipe, r1), (Pipe, r2)] @ m" by (simp add: emits_def)
      moreover have "pipe_fds m = {}" using m(2) by (auto simp: pipe_fds_def)
      ultimately show ?thesis using m fds [of r1 "(Pipe, r2) # m"] fds [of r2 m]
        by (auto simp del: fds_simps(6))
    qed
  next
    case False
    with assms(1) 1 2 3 4 5 have
      ar: "attach_and_release K (reply_fds r1) (reply_fds r2) (rv r5) sb s5 = Some ((p, sb'), s')"
      and r5: "rv r5 \<noteq> 0"
      by (auto simp: createExecutionProcess_def Let_def apfst_def map_prod_def split: if_splits)
    have "0 \<le> rv r5" using False by (cases r5) auto
    with r5 have "0 < rv r5" by simp
    with attach_and_release_closes [OF ar] assms(2) obtain n where n: "emits s5 n s'"
      "\<forall>x \<in> set n. plain (fst x)"
      "{fst (reply_fds r1), snd (reply_fds r1), fst (reply_fds r2), snd (reply_fds r2)} \<subseteq> closed_fds n"
      "Kill (rv r5) SIGKILL \<in> fst ` set n" "Waitpid (rv r5) Blocking \<in> fst ` set n"
      by auto
    have new: "new = [(Pipe, r1), (Pipe, r2), (FcntlGetfd ?w, r3), (FcntlSetCloexec ?w (rv r3), r4), (Fork, r5)] @ n"
      using n(1) log assms(3) by (simp add: emits_def)
    have "pipe_fds new \<subseteq> closed_fds new"
      using n(3) plain_pipe_fds [OF n(2)] fds [of r1 "(Pipe, r2) # drop 2 new"] fds [of r2 "drop 2 new"]
      unfolding new by (auto simp del: fds_simps(6) simp: fds_simps(6) [of "FcntlGetfd a" for a]
          fds_simps(6) [of "FcntlSetCloexec a b" for a b] fds_simps(6) [of Fork])
    moreover have "(Fork, pid) \<notin> set n" for pid using n(2) by (auto simp: plain_def)
    ultimately show ?thesis using n(4,5) unfolding new by auto
  qed
qed

theorem failed_creation_cleans_up_witness:
  "\<exists>p s'. createExecutionProcess (scripted (Fail EIO)) demo_context demo_spec demo_sandbox
       (boot [Fds 3 4, Fds 5 6, Ret 0, Ret 0, Ret 42]) = Some (Returns (p, demo_sandbox), s') \<and>
     host_pid p = - 1 \<and> {3, 4, 5, 6} \<subseteq> pipe_fds (calls s') \<and> pipe_fds (calls s') \<subseteq> closed_fds (calls s')"
proof -
  obtain p s' where c: "createExecutionProcess (scripted (Fail EIO)) demo_context demo_spec demo_sandbox
       (boot [Fds 3 4, Fds 5 6, Ret 0, Ret 0, Ret 42]) = Some (Returns (p, demo_sandbox), s')"
    and p: "host_pid p = - 1" and l: "(Pipe, Fds 3 4) \<in> set (calls s')" "(Pipe, Fds 5 6) \<in> set (calls s')"
    by (simp add: createExecutionProcess_def attach_and_release_def addProcessToCgroup_def demo_sandbox_def
      default_SandboxSetupResult_def default_SandboxProcess_def cleanup_failed_child_def
      sys_eval cong: eval_congs)
  have "emits (boot [Fds 3 4, Fds 5 6, Ret 0, Ret 0, Ret 42]) (calls s') s'"
    by (simp add: emits_def boot_simps)
  from failed_creation_cleans_up [OF c _ this] p
  have "pipe_fds (calls s') \<subseteq> closed_fds (calls s')" by simp
  moreover have "{3, 4, 5, 6} \<subseteq> pipe_fds (calls s')" using l by (force simp: pipe_fds_def)
  ultimately show ?thesis using c p by blast
qed

section \<open>Cgroup lifecycle\<close>

text \<open>
  C34. Executions with different ids never share a cgroup directory.
\<close>

theorem cgroup_dir_injective: "cgroup_dir a = cgroup_dir b \<longleftrightarrow> a = b"
  by (simp add: cgroup_dir_def to_decimal_inject flip: word_unat_eq_iff)

text \<open>Attempts to remove a directory that found it busy, each followed by a pause.\<close>

definition busy_tries :: "string \<Rightarrow> reply list \<Rightarrow> call_log" where
  "busy_tries path pauses = concat (map (\<lambda>z. [(Rmdir path, Fail EBUSY), (Usleep 10000, z)]) pauses)"

lemma busy_tries_simps [simp]:
  "busy_tries path [] = []"
  "busy_tries path (z # zs) = (Rmdir path, Fail EBUSY) # (Usleep 10000, z) # busy_tries path zs"
  by (simp_all add: busy_tries_def)

lemma busy_tries_calls: "x \<in> set (busy_tries path zs) \<Longrightarrow> fst x = Rmdir path \<or> fst x = Usleep 10000"
  by (induction zs) auto

text \<open>The replies to \<open>rmdir\<close> after which the sandbox considers its cgroup gone.\<close>

definition given_up :: "reply \<Rightarrow> bool" where
  "given_up r \<longleftrightarrow> rv r \<noteq> - 1 \<or> r \<in> {Fail ENOENT, Fail EPERM, Fail EACCES}"

lemma cleanup_retries_spec:
  "cleanup_retries K n sb s = (ok, sb', s') \<Longrightarrow>
     sb' = (if ok then sb\<lparr>cgroup_path := []\<rparr> else sb) \<and>
     (\<exists>pauses. \<not> ok \<and> length pauses = n \<and> emits s (busy_tries (cgroup_path sb) pauses) s' \<or>
       (\<exists>r. length pauses < n \<and> r \<noteq> Fail EBUSY \<and> (ok \<longleftrightarrow> given_up r) \<and>
         emits s (busy_tries (cgroup_path sb) pauses @ [(Rmdir (cgroup_path sb), r)]) s'))"
proof (induction n arbitrary: s)
  case 0
  then show ?case by (auto intro: exI [of _ "[]"])
next
  case (Suc n)
  obtain r s1 where 1: "sys K (Rmdir (cgroup_path sb)) s = (r, s1)" by fastforce
  note e1 = emits_sys [OF 1]
  show ?case
  proof (cases "rv r = - 1 \<and> errno s1 = EBUSY")
    case False
    with Suc.prems 1 have "s' = s1" "sb' = (if ok then sb\<lparr>cgroup_path := []\<rparr> else sb)"
      "ok \<longleftrightarrow> rv r \<noteq> - 1 \<or> errno s1 \<in> {ENOENT, EPERM, EACCES}"
      by (auto split: if_splits)
    moreover from this(3) have "ok \<longleftrightarrow> given_up r" "r \<noteq> Fail EBUSY"
      using False 1 by (cases r; simp add: given_up_def errno_sys_fail)+
    ultimately show ?thesis using e1
      by (intro conjI exI [of _ "[]"] disjI2 exI [of _ r]) simp_all
  next
    case True
    let ?s2 = "do_sys K (Usleep 10000) s1"
    let ?z = "fst (K (Usleep 10000) (world s1))"
    from True 1 have r: "r = Fail EBUSY" by (auto simp: rv_eq_minus_one errno_sys_fail)
    have "cleanup_retries K n sb ?s2 = (ok, sb', s')" using Suc.prems 1 True by simp
    note IH = Suc.IH [OF this]
    have e: "emits s ((Rmdir (cgroup_path sb), Fail EBUSY) # (Usleep 10000, ?z) # new) s'" if "emits ?s2 new s'" for new
      using e1 that r by (simp add: emits_def)
    from IH obtain zs where
      "\<not> ok \<and> length (?z # zs) = Suc n \<and> emits s (busy_tries (cgroup_path sb) (?z # zs)) s' \<or>
       (\<exists>r. length (?z # zs) < Suc n \<and> r \<noteq> Fail EBUSY \<and> (ok \<longleftrightarrow> given_up r) \<and>
         emits s (busy_tries (cgroup_path sb) (?z # zs) @ [(Rmdir (cgroup_path sb), r)]) s')"
      using e by fastforce
    with IH show ?thesis by blast
  qed
qed

text \<open>
  C30. What \<open>cleanupCgroup\<close> does and reports. A sandbox without a cgroup makes no call and succeeds. Otherwise it
  removes its own directory and nothing else: up to four attempts may find the directory busy, each
  followed by a pause of ten milliseconds, and the first answer other than \<open>EBUSY\<close> decides; after five busy
  attempts it gives up and fails. It succeeds exactly when that answer is a removal, or one of \<open>ENOENT\<close>,
  \<open>EPERM\<close> and \<open>EACCES\<close> (after the last two the directory is still there), and only then forgets the path.
\<close>

theorem cleanupCgroup_bounded:
  assumes "cleanupCgroup K sb s = (ok, sb', s')"
  shows "if cgroup_path sb = [] then ok \<and> sb' = sb \<and> s' = s
    else sb' = (if ok then sb\<lparr>cgroup_path := []\<rparr> else sb) \<and>
      (\<exists>pauses. \<not> ok \<and> length pauses = 5 \<and> emits s (busy_tries (cgroup_path sb) pauses) s' \<or>
        (\<exists>r. length pauses < 5 \<and> r \<noteq> Fail EBUSY \<and>
          (ok \<longleftrightarrow> rv r \<noteq> - 1 \<or> r \<in> {Fail ENOENT, Fail EPERM, Fail EACCES}) \<and>
          emits s (busy_tries (cgroup_path sb) pauses @ [(Rmdir (cgroup_path sb), r)]) s'))"
proof (cases "cgroup_path sb = []")
  case True
  with assms show ?thesis by (simp add: cleanupCgroup_def)
next
  case False
  with assms have "cleanup_retries K 5 sb s = (ok, sb', s')" by (simp add: cleanupCgroup_def)
  from cleanup_retries_spec [OF this] False show ?thesis by (simp only: given_up_def if_False)
qed

theorem cleanupCgroup_bounded_witness:
  "\<exists>s'. cleanupCgroup (scripted (Ret 0)) demo_sandbox (boot [Fail EBUSY, Ret 0, Fail EACCES]) =
      (True, demo_sandbox\<lparr>cgroup_path := []\<rparr>, s') \<and>
    (\<exists>pauses r. (rv r \<noteq> - 1 \<or> r \<in> {Fail ENOENT, Fail EPERM, Fail EACCES}) \<and>
       calls s' = busy_tries ''/c'' pauses @ [(Rmdir ''/c'', r)])"
proof -
  have five: "(5 :: nat) = Suc (Suc (Suc (Suc (Suc 0))))" by simp
  have p: "cgroup_path demo_sandbox = ''/c''" by (simp add: demo_sandbox_def)
  obtain s' where c: "cleanupCgroup (scripted (Ret 0)) demo_sandbox (boot [Fail EBUSY, Ret 0, Fail EACCES]) =
      (True, demo_sandbox\<lparr>cgroup_path := []\<rparr>, s')"
    unfolding cleanupCgroup_def five
    by (simp add: demo_sandbox_def sys_eval cong: eval_congs)
  from cleanupCgroup_bounded [OF c] obtain pauses r where
    "rv r \<noteq> - 1 \<or> r \<in> {Fail ENOENT, Fail EPERM, Fail EACCES}"
    "emits (boot [Fail EBUSY, Ret 0, Fail EACCES]) (busy_tries ''/c'' pauses @ [(Rmdir ''/c'', r)]) s'"
    by (auto simp: p)
  with c show ?thesis by (auto simp: emits_def boot_simps)
qed

text \<open>The three ways \<open>terminate\<close> ends once the sandbox has a cgroup, by what the kernel answered.\<close>

lemma terminate_cases:
  assumes "terminate K sb s = (ok, sb', s')" "cgroup_path sb \<noteq> []"
  obtains (refused) e where "emits s [(Open (cgroup_path sb @ ''/cgroup.kill'') O_WRONLY, Fail e)] s'"
      "ok \<longleftrightarrow> e \<in> {EPERM, EACCES, ENOENT}" "sb' = (if ok then sb\<lparr>cgroup_path := []\<rparr> else sb)"
  | (written) fd w c where "rv fd \<noteq> - 1"
      "emits s [(Open (cgroup_path sb @ ''/cgroup.kill'') O_WRONLY, fd), (Write (rv fd) (string_bytes ''1''), w),
         (Close (rv fd), c)] s'"
      "ok \<longleftrightarrow> rv w = 1 \<or> rv w = - 1 \<and> errno s' \<in> {EPERM, EACCES}"
      "sb' = (if rv w = - 1 \<and> errno s' \<in> {EPERM, EACCES} then sb\<lparr>cgroup_path := []\<rparr> else sb)"
proof -
  obtain fd s1 where 1: "sys K (Open (cgroup_path sb @ ''/cgroup.kill'') O_WRONLY) s = (fd, s1)" by fastforce
  show thesis
  proof (cases "rv fd = - 1")
    case True
    then obtain e where "fd = Fail e" "errno s1 = e" using 1 by (auto simp: rv_eq_minus_one errno_sys_fail)
    with assms 1 emits_sys [OF 1] show thesis
      by (intro refused [of e]) (auto simp: terminate_def split: if_splits)
  next
    case False
    obtain w s2 where 2: "sys K (Write (rv fd) (string_bytes ''1'')) s1 = (w, s2)" by fastforce
    have "s' = do_sys K (Close (rv fd)) s2" "ok \<longleftrightarrow> rv w = 1 \<or> rv w = - 1 \<and> errno s' \<in> {EPERM, EACCES}"
      "sb' = (if rv w = - 1 \<and> errno s' \<in> {EPERM, EACCES} then sb\<lparr>cgroup_path := []\<rparr> else sb)"
      using assms False 1 2 by (auto simp: terminate_def Let_def split: if_splits)
    with False emits_sys [OF 1] emits_sys [OF 2] show thesis
      by (intro written [of fd w "fst (K (Close (rv fd)) (world s2))"]) (simp_all add: emits_def)
  qed
qed

text \<open>
  C29. What \<open>terminate\<close> does and reports. Without a cgroup it makes no call, kills nothing and reports
  success. Otherwise it opens the cgroup's kill file. If that fails, it reports success exactly for \<open>EPERM\<close>,
  \<open>EACCES\<close> and \<open>ENOENT\<close>, forgetting the cgroup although nothing was killed. If not, it writes one byte \<open>1\<close>,
  closes the file and reports success exactly when the byte was written, or when the write failed and \<open>errno\<close>, read
  after the close, is \<open>EPERM\<close> or \<open>EACCES\<close>; in that last case alone the cgroup is forgotten.
\<close>

theorem terminate_contract:
  assumes "terminate K sb s = (ok, sb', s')"
  shows "if cgroup_path sb = [] then ok \<and> sb' = sb \<and> s' = s
    else (\<exists>e. emits s [(Open (cgroup_path sb @ ''/cgroup.kill'') O_WRONLY, Fail e)] s' \<and>
        (ok \<longleftrightarrow> e \<in> {EPERM, EACCES, ENOENT}) \<and> sb' = (if ok then sb\<lparr>cgroup_path := []\<rparr> else sb)) \<or>
      (\<exists>fd w c. rv fd \<noteq> - 1 \<and>
        emits s [(Open (cgroup_path sb @ ''/cgroup.kill'') O_WRONLY, fd), (Write (rv fd) (string_bytes ''1''), w),
          (Close (rv fd), c)] s' \<and>
        (ok \<longleftrightarrow> rv w = 1 \<or> rv w = - 1 \<and> errno s' \<in> {EPERM, EACCES}) \<and>
        sb' = (if rv w = - 1 \<and> errno s' \<in> {EPERM, EACCES} then sb\<lparr>cgroup_path := []\<rparr> else sb))"
proof (cases "cgroup_path sb = []")
  case True
  with assms show ?thesis by (simp add: terminate_def)
next
  case False
  with assms show ?thesis
  proof (cases rule: terminate_cases)
    case (refused e)
    then show ?thesis using False by auto
  next
    case (written fd w c)
    then show ?thesis unfolding if_not_P [OF False] by (intro disjI2 exI [of _ fd] exI conjI)
  qed
qed

theorem terminate_contract_witness:
  "\<exists>s' fd w c. terminate (scripted (Ret 0)) demo_sandbox (boot [Ret 7, Ret 1]) = (True, demo_sandbox, s') \<and>
    calls s' = [(Open ''/c/cgroup.kill'' O_WRONLY, fd), (Write (rv fd) (string_bytes ''1''), w), (Close (rv fd), c)] \<and>
    (rv w = 1 \<or> rv w = - 1 \<and> errno s' \<in> {EPERM, EACCES})"
proof -
  have p: "cgroup_path demo_sandbox = ''/c''" by (simp add: demo_sandbox_def)
  obtain s' where t: "terminate (scripted (Ret 0)) demo_sandbox (boot [Ret 7, Ret 1]) = (True, demo_sandbox, s')"
    by (simp add: terminate_def demo_sandbox_def sys_eval cong: eval_congs)
  from terminate_contract [OF t] t p show ?thesis by (auto simp: emits_def boot_simps demo_sandbox_def)
qed

section \<open>Findings\<close>

lemma hd_enc32 [simp]: "hd (enc32 w @ bs) = word_of_nat (unat w)"
proof -
  have "enc32 w = word_of_nat (unat w) # le_bytes 3 (unat w div 256)"
    unfolding enc32_def using le_bytes.simps(2) [of 3 "unat w"] by simp
  then show ?thesis by simp
qed

text \<open>
  C35. A setup failure the sandbox reports with \<open>failSetup\<close> on the status pipe is not read back: the
  supervisor's \<open>read_status_pipe\<close> takes the eight bytes of the message header for the payload, so
  every such failure arrives as stage \<open>Namespace\<close> with error code 8, whatever it was, and the real
  payload is left in the pipe.
\<close>

theorem failSetup_misread:
  assumes "patient K m" "accepts K wfd buf" "delivers K rfd buf" "buf (world s) = []"
  shows "\<exists>res s1. failSetup K wfd stage e s = Some (res, s1) \<and>
    (\<forall>t. world t = world s1 \<longrightarrow> (\<exists>t'. read_status_pipe K rfd t =
       Some (Payload \<lparr>failed_stage = stage_code Namespace, error_code = 8\<rparr>, t') \<and>
       buf (world t') = enc_setup_failed \<lparr>failed_stage = stage_code stage, error_code = e\<rparr>))"
proof -
  let ?p = "\<lparr>failed_stage = stage_code stage, error_code = e\<rparr>"
  let ?h = "enc_header \<lparr>msg_type = 1, payload_size = 8\<rparr>"
  have w: "length (enc_setup_failed ?p) = 8"
    using setup_failed_codec.enc_width [of ?p] by (simp add: sizeof_defs)
  obtain s1 where s1: "send_message K wfd SetupFailed (enc_setup_failed ?p) s = Some (True, s1)"
    "buf (world s1) = ?h @ enc_setup_failed ?p"
    using send_message_total [OF assms(1,2), of "enc_setup_failed ?p" SetupFailed s] assms(4) w by auto
  have h: "length ?h = sizeof_setup_failed" "hd ?h \<noteq> TAG"
    "dec_setup_failed ?h = \<lparr>failed_stage = stage_code Namespace, error_code = 8\<rparr>"
    by (simp_all add: enc_header_def dec_setup_failed_def sizeof_defs TAG_def hd_enc32)
  have "\<exists>t'. read_status_pipe K rfd t = Some (Payload (dec_setup_failed ?h), t') \<and>
      buf (world t') = enc_setup_failed ?p" if "world t = world s1" for t
    using read_status_pipe_untagged [OF assms(1,3) _ h(1,2), of t "enc_setup_failed ?p"] that s1(2) by simp
  with s1 h(3) show ?thesis by (auto simp: failSetup_def)
qed

theorem failSetup_misread_witness:
  "\<exists>res s1. failSetup fifo 6 Filesystem EPERM (boot ([], [3, 0, 2])) = Some (res, s1) \<and>
    (\<forall>t. world t = world s1 \<longrightarrow> (\<exists>t'. read_status_pipe fifo 5 t =
       Some (Payload \<lparr>failed_stage = 1, error_code = 8\<rparr>, t') \<and>
       fst (world t') = enc_setup_failed \<lparr>failed_stage = 2, error_code = 1\<rparr>))"
  using failSetup_misread [OF fifo_channel(1-3), of "boot ([], [3, 0, 2])" 6 Filesystem EPERM 5]
  by (simp add: boot_simps)

end
