(* ===== verification/Supervisor.thy ===== *)
theory Supervisor
  imports Sandbox
begin

text \<open>
  The supervisor: the child branch of \<open>ProcessRunner::run\<close> after its fork (lines 161 to 442 of
  \<open>src/runner/process_runner.cpp\<close>). It prepares the sandbox, creates the submission process,
  answers the runner's \<open>Terminate\<close> requests and the status pipe, reaps the submission, removes its
  cgroup and reports. The locals the loop and the cleanup lambda share are the record \<open>supervisor\<close>;
  a step of the loop ends the process (\<open>Inl\<close>) or goes on (\<open>Inr\<close>).
\<close>

section \<open>State\<close>

record pipes =
  control_socket :: "int \<times> int"
  stdin_pipe :: "int \<times> int"
  stdout_pipe :: "int \<times> int"
  stderr_pipe :: "int \<times> int"

record supervisor =
  sup_process :: SandboxProcess
  sup_sandbox :: Sandbox
  sup_status :: cint
  sup_usage :: rusage
  sup_finished :: bool
  startup_status_open :: bool
  waited_pid :: int
  forwarded_child_status :: cint
  has_forwarded_status :: bool
  status_poll_fd :: int
  sup_termination_requested :: bool

type_synonym 'w sup_step = "((proc_end + supervisor) \<times> 'w proc) option"

definition initial_supervisor :: "SandboxProcess \<Rightarrow> Sandbox \<Rightarrow> supervisor" where
  "initial_supervisor process sb =
     \<lparr>sup_process = process, sup_sandbox = sb, sup_status = 0, sup_usage = zero_rusage,
      sup_finished = False, startup_status_open = True, waited_pid = - 1,
      forwarded_child_status = 0, has_forwarded_status = False, status_poll_fd = status_fd process,
      sup_termination_requested = False\<rparr>"

text \<open>\<open>close(process.status_fd)\<close> and the assignments that always follow it.\<close>

definition close_status :: "'w kernel \<Rightarrow> supervisor \<Rightarrow> 'w proc \<Rightarrow> supervisor \<times> 'w proc" where
  "close_status K p s =
     (p\<lparr>sup_process := (sup_process p)\<lparr>status_fd := - 1\<rparr>, startup_status_open := False,
        status_poll_fd := - 1\<rparr>,
      do_sys K (Close (status_fd (sup_process p))) s)"

section \<open>Failure\<close>

definition cleanup_supervisor_failure ::
  "'w kernel \<Rightarrow> int \<Rightarrow> supervisor \<Rightarrow> bool \<Rightarrow> 'w proc \<Rightarrow> 'w sup_step"
where
  "cleanup_supervisor_failure K cfd p termination_already_attempted s = do {
     let (p, s) = (if \<not> termination_already_attempted
       then (case terminate K (sup_sandbox p) s of (_, sb, s) \<Rightarrow> (p\<lparr>sup_sandbox := sb\<rparr>, s))
       else (p, s));
     let s = do_sys K (Kill (host_pid (sup_process p)) SIGKILL) s;
     (_, s) \<leftarrow> retry K (Wait4 (host_pid (sup_process p)) Blocking) s;
     let (p, s) = (if startup_status_open p then close_status K p s else (p, s));
     let s = do_sys K (Close cfd) s;
     Some (Inl (Exited EXIT_FAILURE), s)
   }"

section \<open>One round of the loop\<close>

text \<open>A message on the control channel: only a \<open>Terminate\<close> without payload is expected.\<close>

definition handle_control :: "'w kernel \<Rightarrow> int \<Rightarrow> supervisor \<Rightarrow> 'w proc \<Rightarrow> 'w sup_step" where
  "handle_control K cfd p s = do {
     ((ok, bs), s) \<leftarrow> read_all K cfd sizeof_header s;
     if \<not> ok then cleanup_supervisor_failure K cfd p (sup_termination_requested p) s
     else let header = dec_header bs in
       if msg_type header = msg_code Terminate then
         (if payload_size header \<noteq> 0
          then cleanup_supervisor_failure K cfd p (sup_termination_requested p) s
          else if \<not> sup_termination_requested p then
            (case terminate K (sup_sandbox p) s of (ok, sb, s) \<Rightarrow>
               let p = p\<lparr>sup_sandbox := sb\<rparr> in
               if \<not> ok then cleanup_supervisor_failure K cfd p True s
               else Some (Inr (p\<lparr>sup_termination_requested := True\<rparr>), s))
          else Some (Inr p, s))
       else cleanup_supervisor_failure K cfd p (sup_termination_requested p) s
   }"

text \<open>A setup failure read from the status pipe: reap the child, remove the cgroup, report, exit.\<close>

definition handle_setup_failure ::
  "'w kernel \<Rightarrow> int \<Rightarrow> SandboxSetupFailedPayload \<Rightarrow> supervisor \<Rightarrow> 'w proc \<Rightarrow> 'w sup_step"
where
  "handle_setup_failure K cfd failure p s = do {
     let (p, s) = close_status K p s;
     let pid = host_pid (sup_process p);
     (waited, s) \<leftarrow> retry K (Wait4 pid Blocking) s;
     if rv waited \<noteq> pid then cleanup_supervisor_failure K cfd p (sup_termination_requested p) s
     else case cleanupCgroup K (sup_sandbox p) s of (ok, sb, s) \<Rightarrow>
       if \<not> ok then Some (Inl (Exited EXIT_FAILURE), do_sys K (Close cfd) s)
       else do {
         (sent, s) \<leftarrow> send_message K cfd SetupFailed (enc_setup_failed failure) s;
         Some (Inl (Exited EXIT_FAILURE), do_sys K (Close cfd) s)
       }
   }"

definition handle_status :: "'w kernel \<Rightarrow> int \<Rightarrow> supervisor \<Rightarrow> 'w proc \<Rightarrow> 'w sup_step" where
  "handle_status K cfd p s = do {
     (result, s) \<leftarrow> read_status_pipe K (status_fd (sup_process p)) s;
     case result of
       WaitStatus st \<Rightarrow>
         Some (Inr (p\<lparr>forwarded_child_status := st, has_forwarded_status := True\<rparr>), s)
     | Payload failure \<Rightarrow> handle_setup_failure K cfd failure p s
     | Eof \<Rightarrow> (case close_status K p s of (p, s) \<Rightarrow> Some (Inr p, s))
     | Error \<Rightarrow> cleanup_supervisor_failure K cfd p (sup_termination_requested p) s
   }"

text \<open>The non-blocking wait; a reaped submission ends the loop once its cgroup is removed.\<close>

definition handle_reap :: "'w kernel \<Rightarrow> int \<Rightarrow> supervisor \<Rightarrow> 'w proc \<Rightarrow> 'w sup_step" where
  "handle_reap K cfd p s = do {
     let pid = host_pid (sup_process p);
     (waited, s) \<leftarrow> retry K (Wait4 pid WNOHANG) s;
     let p = p\<lparr>waited_pid := rv waited,
               sup_usage := (if 0 < rv waited then reply_rusage waited else sup_usage p),
               sup_status := (if rv waited = pid \<and> \<not> has_forwarded_status p
                              then reply_status waited else sup_status p)\<rparr>;
     if rv waited = - 1 then cleanup_supervisor_failure K cfd p (sup_termination_requested p) s
     else if rv waited = pid then
       (let p = p\<lparr>sup_finished := True\<rparr>;
            (p, s) = (if startup_status_open p then close_status K p s else (p, s)) in
        case cleanupCgroup K (sup_sandbox p) s of (ok, sb, s) \<Rightarrow>
          if \<not> ok then Some (Inl (Exited EXIT_FAILURE), do_sys K (Close cfd) s)
          else Some (Inr (p\<lparr>sup_sandbox := sb\<rparr>), s))
     else Some (Inr p, s)
   }"

definition supervise_round :: "'w kernel \<Rightarrow> int \<Rightarrow> supervisor \<Rightarrow> 'w proc \<Rightarrow> 'w sup_step" where
  "supervise_round K cfd p s = do {
     (r, s) \<leftarrow> retry K (Poll [(cfd, POLLIN), (status_poll_fd p, POLLIN)] 10) s;
     if rv r = - 1 then cleanup_supervisor_failure K cfd p (sup_termination_requested p) s
     else do {
       (x, s) \<leftarrow> (if 0 < rv r \<and> has_flag (revents r 0) POLLIN then handle_control K cfd p s
                  else Some (Inr p, s));
       case x of Inl e \<Rightarrow> Some (Inl e, s) | Inr p \<Rightarrow> do {
         (x, s) \<leftarrow> (if startup_status_open p \<and> has_flag (revents r 1) (POLLIN OR POLLHUP OR POLLERR)
                    then handle_status K cfd p s else Some (Inr p, s));
         case x of Inl e \<Rightarrow> Some (Inl e, s) | Inr p \<Rightarrow> handle_reap K cfd p s
       }
     }
   }"

partial_function (option) supervise :: "'w kernel \<Rightarrow> int \<Rightarrow> supervisor \<Rightarrow> 'w proc \<Rightarrow> 'w sup_step" where
  "supervise K cfd p s =
     (if sup_finished p then Some (Inr p, s)
      else do {
        (x, s) \<leftarrow> supervise_round K cfd p s;
        case x of Inl e \<Rightarrow> Some (Inl e, s) | Inr p \<Rightarrow> supervise K cfd p s
      })"

declare supervise.simps [code]

section \<open>The supervisor process\<close>

text \<open>After the loop: report the submission's wait status and resource usage.\<close>

definition report_terminated :: "'w kernel \<Rightarrow> int \<Rightarrow> supervisor \<Rightarrow> 'w proc \<Rightarrow> (proc_end \<times> 'w proc) option" where
  "report_terminated K cfd p s =
     (if waited_pid p = - 1 then do {
        let payload = \<lparr>failed_stage = stage_code ProcessCreation, error_code = errno s\<rparr>;
        (_, s) \<leftarrow> send_message K cfd SetupFailed (enc_setup_failed payload) s;
        Some (Exited EXIT_FAILURE, do_sys K (Close cfd) s)
      }
      else do {
        let terminated = \<lparr>wait_status = (if has_forwarded_status p then forwarded_child_status p else sup_status p),
                          usage = sup_usage p\<rparr>;
        (sent, s) \<leftarrow> send_message K cfd Terminated (enc_terminated terminated) s;
        Some (Exited (if sent then EXIT_SUCCESS else EXIT_FAILURE), do_sys K (Close cfd) s)
      })"

text \<open>The \<open>Ready\<close> message; the source leaves its execution id value-initialised.\<close>

definition ready_payload :: "SandboxProcess \<Rightarrow> SandboxReadyPayload" where
  "ready_payload process = \<lparr>ready_host_pid = word_of_int (host_pid process),
     ready_namespace_pid = word_of_int (namespace_pid process), ready_execution_id = 0\<rparr>"

definition supervise_submission ::
  "'w kernel \<Rightarrow> int \<Rightarrow> SandboxProcess \<Rightarrow> Sandbox \<Rightarrow> 'w proc \<Rightarrow> (proc_end \<times> 'w proc) option"
where
  "supervise_submission K cfd process sb s = do {
     let p = initial_supervisor process sb;
     (sent, s) \<leftarrow> send_message K cfd Ready (enc_ready (ready_payload process)) s;
     (x, s) \<leftarrow> (if \<not> sent then cleanup_supervisor_failure K cfd p (sup_termination_requested p) s
                else supervise K cfd p s);
     case x of Inl e \<Rightarrow> Some (e, s) | Inr p \<Rightarrow> report_terminated K cfd p s
   }"

definition supervisor_main ::
  "'w kernel \<Rightarrow> pipes \<Rightarrow> u64 \<Rightarrow> string \<Rightarrow> string list \<Rightarrow> ExecutionConfig \<Rightarrow> 'w proc \<Rightarrow> (proc_end \<times> 'w proc) option"
where
  "supervisor_main K fds execution_id executable args cfg s = do {
     let s = do_sys K (Close (fst (control_socket fds))) s;
     let s = do_sys K (Close (fst (stdout_pipe fds))) s;
     let s = do_sys K (Close (fst (stderr_pipe fds))) s;
     let s = do_sys K (Close (snd (stdin_pipe fds))) s;
     let cfd = snd (control_socket fds);
     let context = \<lparr>stdin_fd = fst (stdin_pipe fds), stdout_fd = snd (stdout_pipe fds),
       stderr_fd = snd (stderr_pipe fds), control_fd = cfd, context_status_fd = - 1\<rparr>;
     let spec = \<lparr>spec_executable = executable, spec_args = args,
       spec_cpu_limit = cpu_limit (limit cfg), spec_memory_limit = memory_limit (limit cfg)\<rparr>;
     ((setup, sb), s) \<leftarrow> prepareEnvironment K cfd execution_id (new_Sandbox (sandbox_config cfg)) s;
     if \<not> success setup then Some (Exited EXIT_FAILURE, s)
     else do {
       (created, s) \<leftarrow> createExecutionProcess K context spec sb s;
       case created of
         Ends e \<Rightarrow> Some (e, s)
       | Returns (process, sb) \<Rightarrow>
           if host_pid process \<le> 0 then
             (case cleanupCgroup K sb s of (_, sb, s) \<Rightarrow>
                Some (Exited EXIT_FAILURE, do_sys K (Close cfd) s))
           else supervise_submission K cfd process sb s
     }
   }"

end
