(* ===== verification/Process_Runner.thy ===== *)
theory Process_Runner
  imports Supervisor "HOL-Library.Signed_Division"
begin

text \<open>
  \<open>include/runner/process_runner.hpp\<close> and the runner's side of \<open>src/runner/process_runner.cpp\<close>:
  the execution identifiers, the \<open>SIGPIPE\<close> guard, and \<open>ProcessRunner::run\<close> in the process that
  called it. The locals of \<open>run\<close> that stay fixed after the fork are the record \<open>run_env\<close>, those
  its lambdas and its loop update the record \<open>runner\<close>. A step of the loop returns from \<open>run\<close>
  (\<open>Inl\<close>) or goes on (\<open>Inr\<close>). Clock values are nanoseconds of the steady clock.
\<close>

section \<open>Identifiers and times\<close>

definition IO_BUFFER_SIZE :: nat where
  "IO_BUFFER_SIZE = 4096"

definition make_id :: "u64 \<Rightarrow> u64 \<Rightarrow> u64 \<Rightarrow> u64" where
  "make_id nanos pid counter =
     (let pid_bits = pid AND 0xFFFF;
          id = push_bit 16 nanos XOR push_bit 8 pid_bits XOR counter in
      if id = 0 then 1 else id)"

definition generateExecutionId :: "'w kernel \<Rightarrow> 'w proc \<Rightarrow> u64 \<times> 'w proc" where
  "generateExecutionId K s =
     (case sys K Clock s of (now, s) \<Rightarrow> case sys K Getpid s of (pid, s) \<Rightarrow>
        (make_id (word_of_int (rv now)) (word_of_int (rv pid)) (exec_counter s),
         s\<lparr>exec_counter := exec_counter s + 1\<rparr>))"

definition to_microseconds :: "timeval \<Rightarrow> int" where
  "to_microseconds t = sint (tv_sec t) * 1000000 + sint (tv_usec t)"

section \<open>The locals of run\<close>

record run_env =
  run_fds :: pipes
  supervisor_pid :: int
  run_execution_id :: u64
  start_time :: int
  deadline :: int
  run_input :: bytes

record runner =
  stdin_open :: bool
  stdout_open :: bool
  stderr_open :: bool
  termination_requested :: bool
  control_channel_open :: bool
  supervisor_reaped :: bool
  submission_finished :: bool
  stdout_read :: bytes
  stderr_read :: bytes
  input_offset :: u64
  run_status :: cint
  run_usage :: rusage
  poll_fds :: "int list"
  run_result :: ExecutionResult

type_synonym 'w run_step = "((ExecutionResult + runner) \<times> 'w proc) option"

text \<open>The descriptors the runner keeps: \<open>stdin_pipe[1]\<close>, \<open>stdout_pipe[0]\<close> and so on.\<close>

abbreviation stdin_w :: "run_env \<Rightarrow> int" where "stdin_w e \<equiv> snd (stdin_pipe (run_fds e))"
abbreviation stdout_r :: "run_env \<Rightarrow> int" where "stdout_r e \<equiv> fst (stdout_pipe (run_fds e))"
abbreviation stderr_r :: "run_env \<Rightarrow> int" where "stderr_r e \<equiv> fst (stderr_pipe (run_fds e))"
abbreviation control_r :: "run_env \<Rightarrow> int" where "control_r e \<equiv> fst (control_socket (run_fds e))"

definition initial_runner :: "run_env \<Rightarrow> ExecutionResult \<Rightarrow> runner" where
  "initial_runner e res =
     \<lparr>stdin_open = True, stdout_open = True, stderr_open = True, termination_requested = False,
      control_channel_open = True, supervisor_reaped = False, submission_finished = False,
      stdout_read = [], stderr_read = [], input_offset = 0, run_status = 0, run_usage = zero_rusage,
      poll_fds = [stdin_w e, stdout_r e, stderr_r e, control_r e], run_result = res\<rparr>"

definition close_stdin :: "'w kernel \<Rightarrow> run_env \<Rightarrow> runner \<Rightarrow> 'w proc \<Rightarrow> runner \<times> 'w proc" where
  "close_stdin K e p s =
     (p\<lparr>stdin_open := False, poll_fds := (poll_fds p)[0 := - 1]\<rparr>, do_sys K (Close (stdin_w e)) s)"

definition close_stdout :: "'w kernel \<Rightarrow> run_env \<Rightarrow> runner \<Rightarrow> 'w proc \<Rightarrow> runner \<times> 'w proc" where
  "close_stdout K e p s =
     (p\<lparr>stdout_open := False, poll_fds := (poll_fds p)[1 := - 1]\<rparr>, do_sys K (Close (stdout_r e)) s)"

definition close_stderr :: "'w kernel \<Rightarrow> run_env \<Rightarrow> runner \<Rightarrow> 'w proc \<Rightarrow> runner \<times> 'w proc" where
  "close_stderr K e p s =
     (p\<lparr>stderr_open := False, poll_fds := (poll_fds p)[2 := - 1]\<rparr>, do_sys K (Close (stderr_r e)) s)"

definition close_control :: "'w kernel \<Rightarrow> run_env \<Rightarrow> runner \<Rightarrow> 'w proc \<Rightarrow> runner \<times> 'w proc" where
  "close_control K e p s =
     (p\<lparr>control_channel_open := False, poll_fds := (poll_fds p)[3 := - 1]\<rparr>, do_sys K (Close (control_r e)) s)"

text \<open>A step that is taken when a condition on the locals holds.\<close>

definition when_open ::
  "(runner \<Rightarrow> bool) \<Rightarrow> (runner \<Rightarrow> 'w proc \<Rightarrow> runner \<times> 'w proc) \<Rightarrow> runner \<Rightarrow> 'w proc \<Rightarrow> runner \<times> 'w proc"
where
  "when_open c f p s = (if c p then f p s else (p, s))"

section \<open>The execution's cgroup, seen from the runner\<close>

definition execution_cgroup_path :: "u64 \<Rightarrow> string" where
  "execution_cgroup_path execution_id =
     ''/sys/fs/cgroup/online-judge/execution-'' @ to_decimal (unat execution_id)"

definition is_execution_cgroup_empty :: "'w kernel \<Rightarrow> u64 \<Rightarrow> 'w proc \<Rightarrow> (bool \<times> 'w proc) option" where
  "is_execution_cgroup_empty K execution_id s =
     (case sys K (Open (execution_cgroup_path execution_id @ ''/cgroup.events'') O_RDONLY) s of (fd, s) \<Rightarrow>
        if rv fd = - 1 then Some (False, s)
        else do {
          (bytes_read, s) \<leftarrow> retry K (Read (rv fd) 255) s;
          let saved_errno = errno s;
          let s = do_sys K (Close (rv fd)) s;
          if rv bytes_read = - 1 then Some (False, s\<lparr>errno := saved_errno\<rparr>)
          else Some (unpopulated (reply_data bytes_read), s)
        })"

definition cleanup_execution_cgroup :: "'w kernel \<Rightarrow> u64 \<Rightarrow> 'w proc \<Rightarrow> bool \<times> 'w proc" where
  "cleanup_execution_cgroup K execution_id s =
     (case sys K (Access (execution_cgroup_path execution_id)) s of (r, s) \<Rightarrow>
        if rv r = - 1 then (True, s)
        else case sys K (Rmdir (execution_cgroup_path execution_id)) s of (r, s) \<Rightarrow>
          if rv r = - 1 then (errno s = EPERM \<or> errno s = EACCES \<or> errno s = ENOENT, s)
          else (True, s))"

definition kill_execution_cgroup :: "'w kernel \<Rightarrow> u64 \<Rightarrow> 'w proc \<Rightarrow> (bool \<times> 'w proc) option" where
  "kill_execution_cgroup K execution_id s =
     (case sys K (Open (execution_cgroup_path execution_id @ ''/cgroup.kill'') O_WRONLY) s of (fd, s) \<Rightarrow>
        if rv fd = - 1 then Some (errno s = EPERM \<or> errno s = EACCES \<or> errno s = ENOENT, s)
        else do {
          (written, s) \<leftarrow> retry K (Write (rv fd) (string_bytes ''1'')) s;
          let saved_errno = errno s;
          let s = do_sys K (Close (rv fd)) s;
          if rv written = - 1 \<and> (saved_errno = EPERM \<or> saved_errno = EACCES) then Some (True, s)
          else if rv written \<noteq> 1 then Some (False, s\<lparr>errno := saved_errno\<rparr>)
          else Some (True, s)
        })"

text \<open>
  The loop \<open>while (elapsed_ms < 1000)\<close> that looks at the cgroup every 10 ms: one hundred rounds.
  The result is the test after the loop.
\<close>

fun cgroup_wait :: "'w kernel \<Rightarrow> u64 \<Rightarrow> nat \<Rightarrow> 'w proc \<Rightarrow> 'w proc option" where
  "cgroup_wait K execution_id 0 s = Some s"
| "cgroup_wait K execution_id (Suc rounds) s = do {
     (empty, s) \<leftarrow> is_execution_cgroup_empty K execution_id s;
     if empty then Some s else cgroup_wait K execution_id rounds (do_sys K (Usleep 10000) s)
   }"

definition await_cgroup_empty :: "'w kernel \<Rightarrow> u64 \<Rightarrow> 'w proc \<Rightarrow> (bool \<times> 'w proc) option" where
  "await_cgroup_empty K execution_id s = do {
     s \<leftarrow> cgroup_wait K execution_id 100 s;
     is_execution_cgroup_empty K execution_id s
   }"

section \<open>Failure before the sandbox is ready\<close>

definition close_parent_ends :: "'w kernel \<Rightarrow> pipes \<Rightarrow> 'w proc \<Rightarrow> 'w proc" where
  "close_parent_ends K fds s =
     do_sys K (Close (fst (stderr_pipe fds))) (do_sys K (Close (fst (stdout_pipe fds)))
       (do_sys K (Close (snd (stdin_pipe fds))) (do_sys K (Close (fst (control_socket fds))) s)))"

definition cleanup_before_ready :: "'w kernel \<Rightarrow> run_env \<Rightarrow> 'w proc \<Rightarrow> (bool \<times> 'w proc) option" where
  "cleanup_before_ready K e s = do {
     let s = do_sys K (Kill (supervisor_pid e) SIGKILL) s;
     (_, s) \<leftarrow> retry K (Waitpid (supervisor_pid e) Blocking) s;
     (execution_killed, s) \<leftarrow> kill_execution_cgroup K (run_execution_id e) s;
     if \<not> execution_killed then Some (False, close_parent_ends K (run_fds e) s)
     else do {
       (empty, s) \<leftarrow> await_cgroup_empty K (run_execution_id e) s;
       if \<not> empty then Some (False, close_parent_ends K (run_fds e) s)
       else case cleanup_execution_cgroup K (run_execution_id e) s of (ok, s) \<Rightarrow>
         Some (ok, close_parent_ends K (run_fds e) s)
     }
   }"

section \<open>The lambdas of the main loop\<close>

definition finalize_resource_usage :: "'w kernel \<Rightarrow> run_env \<Rightarrow> runner \<Rightarrow> 'w proc \<Rightarrow> runner \<times> 'w proc" where
  "finalize_resource_usage K e p s =
     (case sys K Clock s of (end_time, s) \<Rightarrow>
        (p\<lparr>run_result := (run_result p)\<lparr>
             wall_time := (rv end_time - start_time e) sdiv 1000000,
             cpu_time := to_microseconds (ru_utime (run_usage p)) + to_microseconds (ru_stime (run_usage p)),
             memory_usage_bytes := ru_maxrss (run_usage p) * 1024\<rparr>\<rparr>, s))"

definition close_pipes :: "'w kernel \<Rightarrow> run_env \<Rightarrow> runner \<Rightarrow> 'w proc \<Rightarrow> runner \<times> 'w proc" where
  "close_pipes K e p s =
     (case when_open stdin_open (close_stdin K e) p s of (p, s) \<Rightarrow>
      case when_open stdout_open (close_stdout K e) p s of (p, s) \<Rightarrow>
        when_open stderr_open (close_stderr K e) p s)"

definition finalize_status :: "runner \<Rightarrow> runner" where
  "finalize_status p =
     (if WIFEXITED (run_status p) then
        p\<lparr>run_result := (run_result p)\<lparr>exit_code := uint (WEXITSTATUS (run_status p))\<rparr>\<rparr>
      else if WIFSIGNALED (run_status p) then
        p\<lparr>run_result := (run_result p)\<lparr>terminated_by_signal := True,
            signal_number := uint (WTERMSIG (run_status p))\<rparr>\<rparr>
      else p)"

text \<open>
  The loop of \<open>cleanup_after_failure\<close> that polls for the supervisor's end for at most a second; its
  result is the lambda's own \<open>supervisor_reaped\<close>.
\<close>

fun supervisor_wait :: "'w kernel \<Rightarrow> int \<Rightarrow> nat \<Rightarrow> 'w proc \<Rightarrow> (bool \<times> 'w proc) option" where
  "supervisor_wait K pid 0 s = Some (False, s)"
| "supervisor_wait K pid (Suc rounds) s = do {
     (waited, s) \<leftarrow> retry K (Waitpid pid WNOHANG) s;
     if rv waited = pid then Some (True, s)
     else if rv waited = - 1 then Some (False, s)
     else supervisor_wait K pid rounds (do_sys K (Usleep 10000) s)
   }"

text \<open>Kill the cgroup and wait for it to empty: the new \<open>containment_failed\<close> is the negation.\<close>

definition contain_execution :: "'w kernel \<Rightarrow> run_env \<Rightarrow> 'w proc \<Rightarrow> (bool \<times> 'w proc) option" where
  "contain_execution K e s = do {
     (execution_killed, s) \<leftarrow> kill_execution_cgroup K (run_execution_id e) s;
     if \<not> execution_killed then Some (False, s)
     else await_cgroup_empty K (run_execution_id e) s
   }"

text \<open>The branch \<open>if (supervisor_pid > 0)\<close>; the result is \<open>!containment_failed\<close>.\<close>

definition reap_and_contain :: "'w kernel \<Rightarrow> run_env \<Rightarrow> 'w proc \<Rightarrow> (bool \<times> 'w proc) option" where
  "reap_and_contain K e s = do {
     (reaped, s) \<leftarrow> supervisor_wait K (supervisor_pid e) 100 s;
     (execution_contained, s) \<leftarrow> contain_execution K e s;
     let containment_failed = (\<not> execution_contained);
     (reaped, containment_failed, s) \<leftarrow>
       (if \<not> reaped then do {
          let s = do_sys K (Kill (supervisor_pid e) SIGKILL) s;
          (waited, s) \<leftarrow> retry K (Waitpid (supervisor_pid e) Blocking) s;
          Some (rv waited = supervisor_pid e, containment_failed \<or> rv waited = - 1, s)
        } else Some (reaped, containment_failed, s));
     if reaped \<and> execution_contained then
       (case cleanup_execution_cgroup K (run_execution_id e) s of (ok, s) \<Rightarrow>
          Some (\<not> (containment_failed \<or> \<not> ok), s))
     else Some (\<not> containment_failed, s)
   }"

definition cleanup_after_failure ::
  "'w kernel \<Rightarrow> run_env \<Rightarrow> runner \<Rightarrow> 'w proc \<Rightarrow> (bool \<times> runner \<times> 'w proc) option"
where
  "cleanup_after_failure K e p s = do {
     let (p, s) = when_open stdin_open (close_stdin K e) p s;
     (p, s) \<leftarrow> (if control_channel_open p then do {
         (sent, s) \<leftarrow> send_message K (control_r e) Terminate [] s;
         Some (if sent then (p\<lparr>termination_requested := True\<rparr>, s) else close_control K e p s)
       } else Some (p, s));
     (ok, s) \<leftarrow> (if supervisor_pid e > 0 then reap_and_contain K e s else Some (True, s));
     let (p, s) = when_open stdout_open (close_stdout K e) p s;
     let (p, s) = when_open stderr_open (close_stderr K e) p s;
     let (p, s) = when_open control_channel_open (close_control K e) p s;
     Some (ok, p, s)
   }"

definition finish_supervisor_terminal ::
  "'w kernel \<Rightarrow> run_env \<Rightarrow> runner \<Rightarrow> 'w proc \<Rightarrow> (bool \<times> runner \<times> 'w proc) option"
where
  "finish_supervisor_terminal K e p s = do {
     let (p, s) = when_open control_channel_open (close_control K e) p s;
     (waited, s) \<leftarrow> retry K (Waitpid (supervisor_pid e) Blocking) s;
     if rv waited \<noteq> supervisor_pid e then Some (False, p, s)
     else Some (True, p\<lparr>supervisor_reaped := True\<rparr>, s)
   }"

text \<open>
  The three ways the loop gives up: return the result as it is, with \<open>RunnerFailure\<close>, or with
  \<open>RunnerFailure\<close> or \<open>SandboxFailure\<close> as the cleanup succeeded or not.
\<close>

definition give_up :: "'w kernel \<Rightarrow> run_env \<Rightarrow> runner \<Rightarrow> 'w proc \<Rightarrow> 'w run_step" where
  "give_up K e p s = do {
     (_, p, s) \<leftarrow> cleanup_after_failure K e p s;
     Some (Inl (run_result p), s)
   }"

definition give_up_runner :: "'w kernel \<Rightarrow> run_env \<Rightarrow> runner \<Rightarrow> 'w proc \<Rightarrow> 'w run_step" where
  "give_up_runner K e p s = do {
     (_, p, s) \<leftarrow> cleanup_after_failure K e p s;
     Some (Inl ((run_result p)\<lparr>status := RunnerFailure\<rparr>), s)
   }"

definition give_up_classified :: "'w kernel \<Rightarrow> run_env \<Rightarrow> runner \<Rightarrow> 'w proc \<Rightarrow> 'w run_step" where
  "give_up_classified K e p s = do {
     (cleanup_ok, p, s) \<leftarrow> cleanup_after_failure K e p s;
     Some (Inl ((run_result p)\<lparr>status := (if cleanup_ok then RunnerFailure else SandboxFailure)\<rparr>), s)
   }"

section \<open>One round of the loop\<close>

text \<open>The wall-clock limit: ask the supervisor to terminate the submission, once.\<close>

definition enforce_deadline :: "'w kernel \<Rightarrow> run_env \<Rightarrow> int \<Rightarrow> runner \<Rightarrow> 'w proc \<Rightarrow> 'w run_step" where
  "enforce_deadline K e now p s =
     (if \<not> submission_finished p \<and> \<not> termination_requested p \<and> now \<ge> deadline e then do {
        (sent, s) \<leftarrow> send_message K (control_r e) Terminate [] s;
        if \<not> sent then give_up K e p s
        else do {
          let p = p\<lparr>termination_requested := True,
                    run_result := (run_result p)\<lparr>wall_time_limit_exceeded := True\<rparr>\<rparr>;
          let (p, s) = when_open stdin_open (close_stdin K e) p s;
          Some (Inr p, s)
        }
      }
      else Some (Inr p, s))"

text \<open>The \<open>poll\<close> timeout in milliseconds; the cast to \<open>int\<close> keeps 32 bits.\<close>

definition poll_timeout :: "run_env \<Rightarrow> int \<Rightarrow> runner \<Rightarrow> int" where
  "poll_timeout e now p =
     (if submission_finished p then 0
      else if termination_requested p then 10
      else if now \<ge> deadline e then 0
      else signed_take_bit 31 ((deadline e - now) sdiv 1000000))"

text \<open>A \<open>SetupFailed\<close> message after \<open>Ready\<close>.\<close>

definition handle_setup_failed ::
  "'w kernel \<Rightarrow> run_env \<Rightarrow> SandboxMessageHeader \<Rightarrow> runner \<Rightarrow> 'w proc \<Rightarrow> 'w run_step"
where
  "handle_setup_failed K e header p s =
     (if unat (payload_size header) \<noteq> sizeof_setup_failed then give_up_runner K e p s
      else do {
        ((ok, bs), s) \<leftarrow> read_all K (control_r e) sizeof_setup_failed s;
        if \<not> ok then give_up_classified K e p s
        else do {
          (_, p, s) \<leftarrow> finish_supervisor_terminal K e p s;
          let (p, s) = close_pipes K e p s;
          Some (Inl ((run_result p)\<lparr>status := SandboxFailure\<rparr>), s)
        }
      })"

text \<open>The \<open>Terminated\<close> message: record the submission's status and usage, reap the supervisor.\<close>

definition handle_terminated ::
  "'w kernel \<Rightarrow> run_env \<Rightarrow> SandboxMessageHeader \<Rightarrow> runner \<Rightarrow> 'w proc \<Rightarrow> 'w run_step"
where
  "handle_terminated K e header p s =
     (if unat (payload_size header) \<noteq> sizeof_terminated then give_up_runner K e p s
      else do {
        ((ok, bs), s) \<leftarrow> read_all K (control_r e) sizeof_terminated s;
        if \<not> ok then give_up_classified K e p s
        else do {
          let terminated = dec_terminated bs;
          let p = p\<lparr>run_status := wait_status terminated, run_usage := usage terminated,
                    submission_finished := True\<rparr>;
          (ok, p, s) \<leftarrow> finish_supervisor_terminal K e p s;
          if \<not> ok then do {
            let (p, s) = close_pipes K e p s;
            Some (Inl ((run_result p)\<lparr>state := RunnerFailed, status := RunnerFailure\<rparr>), s)
          }
          else do {
            let (p, s) = finalize_resource_usage K e p s;
            let (p, s) = close_pipes K e (finalize_status p) s;
            Some (Inr p, s)
          }
        }
      })"

definition runner_control :: "'w kernel \<Rightarrow> run_env \<Rightarrow> reply \<Rightarrow> runner \<Rightarrow> 'w proc \<Rightarrow> 'w run_step" where
  "runner_control K e ready p s =
     (if control_channel_open p \<and> has_flag (revents ready 3) (POLLIN OR POLLERR OR POLLHUP) then do {
        ((ok, bs), s) \<leftarrow> read_all K (control_r e) sizeof_header s;
        if \<not> ok then give_up_runner K e p s
        else let header = dec_header bs in
          if msg_type header = msg_code SetupFailed then handle_setup_failed K e header p s
          else if msg_type header = msg_code Terminated then handle_terminated K e header p s
          else give_up_runner K e p s
      }
      else Some (Inr p, s))"

text \<open>
  Feeding the submission's input. After \<open>EPIPE\<close> the source still adds \<open>bytes_written = -1\<close> to the
  unsigned offset and compares it with the input's size.
\<close>

definition runner_stdin :: "'w kernel \<Rightarrow> run_env \<Rightarrow> reply \<Rightarrow> runner \<Rightarrow> 'w proc \<Rightarrow> 'w run_step" where
  "runner_stdin K e ready p s =
     (if stdin_open p \<and> has_flag (revents ready 0) (POLLHUP OR POLLERR)
      then (case close_stdin K e p s of (p, s) \<Rightarrow> Some (Inr p, s))
      else if stdin_open p \<and> has_flag (revents ready 0) POLLOUT then do {
        let input_size = (word_of_nat (length (run_input e)) :: u64);
        let remaining = input_size - input_offset p;
        let chunk_size = min (unat remaining) IO_BUFFER_SIZE;
        let chunk = take chunk_size (drop (unat (input_offset p)) (run_input e));
        (bytes_written, s) \<leftarrow> retry K (Write (stdin_w e) chunk) s;
        if rv bytes_written = - 1 \<and> errno s \<noteq> EPIPE then give_up_classified K e p s
        else do {
          let (p, s) = (if rv bytes_written = - 1 then close_stdin K e p s else (p, s));
          let p = p\<lparr>input_offset := input_offset p + word_of_int (rv bytes_written)\<rparr>;
          let (p, s) = (if input_offset p = input_size then close_stdin K e p s else (p, s));
          Some (Inr p, s)
        }
      }
      else Some (Inr p, s))"

definition runner_stdout :: "'w kernel \<Rightarrow> run_env \<Rightarrow> reply \<Rightarrow> runner \<Rightarrow> 'w proc \<Rightarrow> 'w run_step" where
  "runner_stdout K e ready p s =
     (if stdout_open p \<and> has_flag (revents ready 1) (POLLIN OR POLLHUP) then do {
        (bytes_out, s) \<leftarrow> retry K (Read (stdout_r e) IO_BUFFER_SIZE) s;
        if rv bytes_out = - 1 then give_up_classified K e p s
        else if rv bytes_out = 0 then (case close_stdout K e p s of (p, s) \<Rightarrow> Some (Inr p, s))
        else Some (Inr (p\<lparr>stdout_read := stdout_read p @ reply_data bytes_out\<rparr>), s)
      }
      else Some (Inr p, s))"

definition runner_stderr :: "'w kernel \<Rightarrow> run_env \<Rightarrow> reply \<Rightarrow> runner \<Rightarrow> 'w proc \<Rightarrow> 'w run_step" where
  "runner_stderr K e ready p s =
     (if stderr_open p \<and> has_flag (revents ready 2) (POLLIN OR POLLHUP) then do {
        (bytes_err, s) \<leftarrow> retry K (Read (stderr_r e) IO_BUFFER_SIZE) s;
        if rv bytes_err = - 1 then give_up_classified K e p s
        else if rv bytes_err = 0 then (case close_stderr K e p s of (p, s) \<Rightarrow> Some (Inr p, s))
        else Some (Inr (p\<lparr>stderr_read := stderr_read p @ reply_data bytes_err\<rparr>), s)
      }
      else Some (Inr p, s))"

definition and_then :: "'w run_step \<Rightarrow> (runner \<Rightarrow> 'w proc \<Rightarrow> 'w run_step) \<Rightarrow> 'w run_step" where
  "and_then x f = do {
     (x, s) \<leftarrow> x;
     case x of Inl res \<Rightarrow> Some (Inl res, s) | Inr p \<Rightarrow> f p s
   }"

definition all_closed :: "runner \<Rightarrow> bool" where
  "all_closed p \<longleftrightarrow> submission_finished p \<and> \<not> stdin_open p \<and> \<not> stdout_open p \<and> \<not> stderr_open p"

text \<open>
  One iteration. The \<open>break\<close> before \<open>poll\<close> has the negated loop condition as its guard, so leaving
  the round there leaves the loop.
\<close>

definition runner_round :: "'w kernel \<Rightarrow> run_env \<Rightarrow> runner \<Rightarrow> 'w proc \<Rightarrow> 'w run_step" where
  "runner_round K e p s =
     (case sys K Clock s of (now, s) \<Rightarrow>
      and_then (enforce_deadline K e (rv now) p s) (\<lambda>p s.
        if all_closed p then Some (Inr p, s)
        else do {
          (ready, s) \<leftarrow> retry K (Poll (zip (poll_fds p) [POLLOUT, POLLIN, POLLIN, POLLIN])
                                    (poll_timeout e (rv now) p)) s;
          if rv ready = - 1 then give_up_classified K e p s
          else and_then (and_then (and_then (runner_control K e ready p s)
            (runner_stdin K e ready)) (runner_stdout K e ready)) (runner_stderr K e ready)
        }))"

partial_function (option) runner_loop :: "'w kernel \<Rightarrow> run_env \<Rightarrow> runner \<Rightarrow> 'w proc \<Rightarrow> 'w run_step" where
  "runner_loop K e p s =
     (if all_closed p then Some (Inr p, s)
      else do {
        (x, s) \<leftarrow> runner_round K e p s;
        case x of Inl res \<Rightarrow> Some (Inl res, s) | Inr p \<Rightarrow> runner_loop K e p s
      })"

declare runner_loop.simps [code]

section \<open>The whole operation\<close>

text \<open>After the loop: reap the supervisor if that has not happened, and classify the run.\<close>

definition classify :: "runner \<Rightarrow> ExecutionResult" where
  "classify p =
     (let res = run_result p;
          res = (if wall_time_limit_exceeded res
                 then res\<lparr>state := ExecutionState.TimedOut, status := ExecutionStatus.TimedOut\<rparr>
                 else if WIFSIGNALED (run_status p)
                 then res\<lparr>state := ExecutionState.Signaled, status := ExecutionStatus.Signaled\<rparr>
                 else res\<lparr>state := Finished, status := Completed\<rparr>) in
      res\<lparr>stdout_output := stdout_read p, stderr_output := stderr_read p\<rparr>)"

definition conclude :: "'w kernel \<Rightarrow> run_env \<Rightarrow> runner \<Rightarrow> 'w proc \<Rightarrow> (ExecutionResult \<times> 'w proc) option" where
  "conclude K e p s =
     (if \<not> supervisor_reaped p then do {
        (reaped_supervisor, s) \<leftarrow> retry K (Waitpid (supervisor_pid e) Blocking) s;
        if rv reaped_supervisor = - 1 then do {
          (x, s) \<leftarrow> give_up_classified K e p s;
          case x of Inl res \<Rightarrow> Some (res, s) | Inr p \<Rightarrow> Some (run_result p, s)
        }
        else Some (classify (p\<lparr>supervisor_reaped := True\<rparr>), s)
      }
      else Some (classify p, s))"

definition supervise_io ::
  "'w kernel \<Rightarrow> run_env \<Rightarrow> ExecutionResult \<Rightarrow> 'w proc \<Rightarrow> (ExecutionResult \<times> 'w proc) option"
where
  "supervise_io K e res s = do {
     let s = do_sys K (Close (snd (stdout_pipe (run_fds e)))) s;
     let s = do_sys K (Close (snd (stderr_pipe (run_fds e)))) s;
     let s = do_sys K (Close (fst (stdin_pipe (run_fds e)))) s;
     let p = initial_runner e res;
     let (p, s) = (if length (run_input e) = 0 then close_stdin K e p s else (p, s));
     (x, s) \<leftarrow> runner_loop K e p s;
     case x of Inl res \<Rightarrow> Some (res, s) | Inr p \<Rightarrow> conclude K e p s
   }"

text \<open>After the fork, in the parent: wait for \<open>Ready\<close>.\<close>

definition run_parent ::
  "'w kernel \<Rightarrow> run_env \<Rightarrow> ExecutionResult \<Rightarrow> 'w proc \<Rightarrow> (ExecutionResult \<times> 'w proc) option"
where
  "run_parent K e res s = do {
     let fds = run_fds e;
     let s = do_sys K (Close (snd (control_socket fds))) s;
     (received, s) \<leftarrow> receive_message K (control_r e) sizeof_ready s;
     case received of
       None \<Rightarrow> do {
         (_, s) \<leftarrow> cleanup_before_ready K e s;
         Some (res\<lparr>state := SandboxFailed, status := SandboxFailure\<rparr>, s)
       }
     | Some (header, _) \<Rightarrow>
         if msg_type header = msg_code SetupFailed then do {
           let s = do_sys K (Close (fst (control_socket fds))) s;
           (_, s) \<leftarrow> retry K (Waitpid (supervisor_pid e) Blocking) s;
           let s = do_sys K (Close (snd (stdin_pipe fds))) s;
           let s = do_sys K (Close (fst (stdout_pipe fds))) s;
           let s = do_sys K (Close (fst (stderr_pipe fds))) s;
           Some (res\<lparr>state := SandboxFailed, status := SandboxFailure\<rparr>, s)
         }
         else if msg_type header \<noteq> msg_code Ready then do {
           (_, s) \<leftarrow> cleanup_before_ready K e s;
           Some (res\<lparr>state := RunnerFailed, status := RunnerFailure\<rparr>, s)
         }
         else supervise_io K e res s
   }"


text \<open>
  The operation from its start to the fork, in both processes: \<open>Returns\<close> is the caller's side,
  \<open>Ends\<close> the supervisor's, which exits. Each failure closes what was opened before it.
\<close>

definition run_forked ::
  "'w kernel \<Rightarrow> string \<Rightarrow> string list \<Rightarrow> bytes \<Rightarrow> ExecutionConfig \<Rightarrow> ExecutionResult \<Rightarrow> u64 \<Rightarrow> 'w proc
     \<Rightarrow> (ExecutionResult forked \<times> 'w proc) option"
where
  "run_forked K executable args input cfg res execution_id s =
     (let failed = res\<lparr>state := RunnerFailed, status := RunnerFailure\<rparr> in
      case sys K Socketpair s of (r, s) \<Rightarrow>
      if rv r = - 1 then Some (Returns failed, s) else
      let control = reply_fds r in
      case sys K Pipe s of (r, s) \<Rightarrow>
      if rv r = - 1 then Some (Returns failed, close_pair K control s) else
      let stdin_p = reply_fds r in
      case sys K Pipe s of (r, s) \<Rightarrow>
      if rv r = - 1 then Some (Returns failed, close_pair K stdin_p (close_pair K control s)) else
      let stdout_p = reply_fds r in
      case sys K Pipe s of (r, s) \<Rightarrow>
      if rv r = - 1 then
        Some (Returns failed, close_pair K stdout_p (close_pair K stdin_p (close_pair K control s))) else
      let stderr_p = reply_fds r;
          fds = \<lparr>control_socket = control, stdin_pipe = stdin_p, stdout_pipe = stdout_p,
                 stderr_pipe = stderr_p\<rparr> in
      case sys K Clock s of (start, s) \<Rightarrow>
      case sys K Fork s of (pid, s) \<Rightarrow>
      if rv pid = - 1 then
        Some (Returns failed, close_pair K stderr_p (close_pair K stdout_p (close_pair K stdin_p
          (close_pair K control s))))
      else if rv pid = 0 then
        map_option (apfst Ends) (supervisor_main K fds execution_id executable args cfg s)
      else map_option (apfst Returns) (run_parent K
        \<lparr>run_fds = fds, supervisor_pid = rv pid, run_execution_id = execution_id, start_time = rv start,
         deadline = rv start + wall_limit (limit cfg) * 1000000, run_input = input\<rparr> res s))"

text \<open>The result \<open>run\<close> starts with.\<close>

definition fresh_result :: ExecutionResult where
  "fresh_result = default_ExecutionResult\<lparr>state := Created, exit_code := 1\<rparr>"

text \<open>
  \<open>ProcessRunner::run\<close> with the \<open>SigpipeGuard\<close> around it: its constructor ignores \<open>SIGPIPE\<close>, its
  destructor restores the saved action on every return.
\<close>

definition run_both ::
  "'w kernel \<Rightarrow> string \<Rightarrow> string list \<Rightarrow> bytes \<Rightarrow> ExecutionConfig \<Rightarrow> 'w proc
     \<Rightarrow> (ExecutionResult forked \<times> 'w proc) option"
where
  "run_both K executable args input cfg s =
     (case generateExecutionId K s of (execution_id, s) \<Rightarrow>
      let res = fresh_result in
      case sys K (Sigaction SIGPIPE SIG_IGN) s of (r, s) \<Rightarrow>
      if rv r = - 1 then Some (Returns (res\<lparr>state := RunnerFailed, status := RunnerFailure\<rparr>), s)
      else do {
        (x, s) \<leftarrow> run_forked K executable args input cfg res execution_id s;
        case x of
          Ends pe \<Rightarrow> Some (Ends pe, s)
        | Returns res \<Rightarrow> Some (Returns res, do_sys K (Sigaction SIGPIPE SIG_SAVED) s)
      })"

text \<open>What the caller sees: the supervisor's process never returns to it.\<close>

definition run :: "'w kernel \<Rightarrow> 'w proc process_runner" where
  "run K executable args input cfg s =
     (case run_both K executable args input cfg s of
        Some (Returns res, s) \<Rightarrow> Some (res, s)
      | _ \<Rightarrow> None)"

end
