(* ===== verification/Call_Log.thy ===== *)
theory Call_Log
  imports Sandbox_Protocol "HOL-Library.Sublist"
begin

text \<open>
  Facts about logs of system calls that the correctness proofs of the runner and of the supervisor share: how
  often a descriptor was closed, which calls move no data, and what a transfer over a kernel with the documented
  behaviour of \<open>read\<close> and \<open>write\<close> leaves in the log.
\<close>

section \<open>Descriptors and data in a log\<close>

text \<open>How often a log closes a descriptor.\<close>

definition closes :: "int \<Rightarrow> call_log \<Rightarrow> nat" where
  "closes fd log = length (filter (\<lambda>x. fst x = Close fd) log)"

lemma closes_simps [simp, log_simps]:
  "closes fd [] = 0"
  "closes fd (xs @ ys) = closes fd xs + closes fd ys"
  "closes fd ((Close fd', r) # log) = (if fd' = fd then 1 else 0) + closes fd log"
  by (simp_all add: closes_def)

lemma io_other [simp, log_simps]:
  "put_on fd ((Close fd', r) # log) = put_on fd log" "got_from fd ((Close fd', r) # log) = got_from fd log"
  "put_on fd ((Read fd' n, r) # log) = put_on fd log" "got_from fd ((Write fd' bs, r) # log) = got_from fd log"
  "closes fd ((Read fd' n, r) # log) = closes fd log" "closes fd ((Write fd' bs, r) # log) = closes fd log"
  by (simp_all add: put_on_def got_from_def closes_def)

lemma io_iff:
  "reads_from fd c \<longleftrightarrow> (\<exists>n. c = Read fd n)" "writes_to fd c \<longleftrightarrow> (\<exists>bs. c = Write fd bs)"
  by (cases c; auto simp: reads_from_def writes_to_def)+

text \<open>Interrupted calls move nothing.\<close>

lemma interrupted [simp, log_simps]:
  "put_on fd (replicate k (c, Fail err)) = []" "got_from fd (replicate k (c, Fail err)) = []"
  "closes fd (replicate k (Read fd' n, Fail err)) = 0" "closes fd (replicate k (Write fd' bs, Fail err)) = 0"
  by (auto simp: put_on_def got_from_def closes_def split: syscall.splits)

section \<open>Honest kernels\<close>

text \<open>
  What the programs rely on of \<open>read\<close> and \<open>write\<close>: they transfer at most the bytes asked for, and a
  \<open>read\<close> that succeeds returns bytes.
\<close>

definition honest :: "'w kernel \<Rightarrow> bool" where
  "honest K \<longleftrightarrow> (\<forall>fd bs w. rv (fst (K (Write fd bs) w)) \<le> int (length bs)) \<and>
     (\<forall>fd n w. (\<exists>e. fst (K (Read fd n) w) = Fail e) \<or> (\<exists>bs. fst (K (Read fd n) w) = Data bs \<and> length bs \<le> n))"

lemma honest_read: "honest K \<Longrightarrow> sys K (Read fd n) s = (r, s') \<Longrightarrow> rv r \<noteq> - 1 \<Longrightarrow>
  length (reply_data r) \<le> n \<and> rv r = int (length (reply_data r))"
proof -
  assume h: "honest K" "sys K (Read fd n) s = (r, s')" "rv r \<noteq> - 1"
  then have "fst (K (Read fd n) (world s)) = r" by (metis fst_conv sys_simps(1))
  with h(1,3) show ?thesis unfolding honest_def by (metis reply_data.simps(1) rv.simps(1,3))
qed

lemma read_loop_length:
  assumes "honest K" "read_loop K fd n got s = Some ((True, data), s')"
  shows "length data = length got + n"
proof -
  define P where "P = (\<lambda>(K' :: 'a kernel) (fd :: int) (n :: nat) got (s :: 'a proc) (x :: (bool \<times> bytes) \<times> 'a proc).
     honest K' \<longrightarrow> fst (fst x) \<longrightarrow> length (snd (fst x)) = length (got :: bytes) + n)"
  have "P K fd n got s ((True, data), s')"
  proof (rule read_loop.raw_induct [where P = P, OF _ assms(2)])
    fix f :: "'a kernel \<Rightarrow> int \<Rightarrow> nat \<Rightarrow> bytes \<Rightarrow> 'a proc \<Rightarrow> ((bool \<times> bytes) \<times> 'a proc) option"
      and K fd n got s x
    assume IH: "\<And>K fd n got s x. f K fd n got s = Some x \<Longrightarrow> P K fd n got s x"
      and eq: "(if n = 0 then Some ((True, got), s)
        else case sys K (Read fd n) s of (r, s') \<Rightarrow>
          if rv r = - 1 then (if errno s' = EINTR then f K fd n got s' else Some ((False, got), s'))
          else if rv r = 0 then Some ((False, got), s')
          else f K fd (n - nat (rv r)) (got @ reply_data r) s') = Some x"
    obtain r t where sys: "sys K (Read fd n) s = (r, t)" by fastforce
    show "P K fd n got s x"
    proof (cases "n = 0 \<or> rv r \<le> 0")
      case True
      moreover have "rv r \<le> 0 \<Longrightarrow> rv r = - 1 \<or> rv r = 0" by (cases r) auto
      ultimately show ?thesis using eq sys IH [of K fd n got t x] by (auto simp: P_def split: if_splits)
    next
      case False
      with eq sys have "f K fd (n - nat (rv r)) (got @ reply_data r) t = Some x" by auto
      with IH have "P K fd (n - nat (rv r)) (got @ reply_data r) t x" by blast
      with honest_read [OF _ sys] False show ?thesis by (auto simp: P_def)
    qed
  qed
  with assms(1) show ?thesis by (simp add: P_def)
qed

lemma read_all_exact:
  assumes "honest K" "read_all K fd n s = Some ((True, data), s')"
  shows "\<exists>new. emits s new s' \<and> (\<forall>x \<in> set new. reads_from fd (fst x)) \<and> data = got_from fd new \<and> length data = n"
  using read_all_data [OF assms(2)] read_loop_length [OF assms(1) assms(2) [unfolded read_all_def]] by auto

lemma retry_reply:
  assumes "retry K c s = Some (r, t)"
  shows "\<exists>w. fst (K c w) = r"
proof -
  define P where "P = (\<lambda>(K' :: 'a kernel) c' (s :: 'a proc) (x :: reply \<times> 'a proc). \<exists>w. fst (K' c' w) = fst x)"
  have "P K c s (r, t)"
  proof (rule retry.raw_induct [where P = P, OF _ assms])
    fix f :: "'a kernel \<Rightarrow> syscall \<Rightarrow> 'a proc \<Rightarrow> (reply \<times> 'a proc) option" and K c s x
    assume IH: "\<And>K c s x. f K c s = Some x \<Longrightarrow> P K c s x"
      and eq: "(case sys K c s of (r, s') \<Rightarrow>
                  if rv r = - 1 \<and> errno s' = EINTR then f K c s' else Some (r, s')) = Some x"
    obtain r' s' where sys: "sys K c s = (r', s')" by fastforce
    then have "fst (K c (world s)) = r'" by (metis fst_conv sys_simps(1))
    with eq sys IH show "P K c s x" by (auto simp: P_def split: if_splits)
  qed
  then show ?thesis by (simp add: P_def)
qed

lemma honest_write: "honest K \<Longrightarrow> retry K (Write fd bs) s = Some (r, t) \<Longrightarrow> rv r \<le> int (length bs)"
  using retry_reply unfolding honest_def by metis

text \<open>Congruence rules for evaluating a program on a concrete kernel.\<close>

lemmas demo_congs = eval_congs sum.case_cong_weak option.case_cong_weak

end
