(* ===== verification/Runner_Invariant.thy ===== *)
theory Runner_Invariant
  imports Process_Runner Call_Log
begin

text \<open>
  The correctness of the runner's main loop. \<open>agrees\<close> ties the loop's locals to the log of system calls
  (output read, input sent, descriptors closed), \<open>converses\<close> to the messages exchanged with the supervisor, and
  \<open>flags_ok\<close> the flags to one another and to the poll array; \<open>run_inv\<close> is their conjunction and every step
  of the loop keeps it or returns a failure. The theorems read the invariant off at the loop's end.
\<close>

section \<open>What the log of a run shows\<close>

text \<open>
  The runner's descriptors are different ones, as the kernel hands out different descriptors. \<open>quiet\<close>
  calls are those that neither move the submission's input or output nor close anything.
\<close>

definition distinct_fds :: "run_env \<Rightarrow> bool" where
  "distinct_fds e \<longleftrightarrow> distinct [stdin_w e, stdout_r e, stderr_r e, control_r e]"

definition quiet :: "run_env \<Rightarrow> syscall \<Rightarrow> bool" where
  "quiet e c \<longleftrightarrow> \<not> writes_to (stdin_w e) c \<and> \<not> reads_from (stdout_r e) c \<and> \<not> reads_from (stderr_r e) c \<and>
     (\<forall>fd. c \<noteq> Close fd)"

lemma quiet_log:
  assumes "\<forall>x \<in> set log. quiet e (fst x)"
  shows "put_on (stdin_w e) log = []" "got_from (stdout_r e) log = []" "got_from (stderr_r e) log = []" "closes fd log = 0"
  using assms by (auto simp: quiet_def closes_def intro: put_on_none got_from_none)

lemma quiet_simps [simp]:
  "quiet e Clock" "quiet e (Poll fds t)" "quiet e (Waitpid pid mode)"
  by (simp_all add: quiet_def writes_to_def reads_from_def)

lemma writes_control_quiet: "distinct_fds e \<Longrightarrow> writes_to (control_r e) c \<Longrightarrow> quiet e c"
  by (cases c) (auto simp: quiet_def writes_to_def reads_from_def distinct_fds_def)

lemma reads_control_quiet: "distinct_fds e \<Longrightarrow> reads_from (control_r e) c \<Longrightarrow> quiet e c"
  by (cases c) (auto simp: quiet_def writes_to_def reads_from_def distinct_fds_def)

text \<open>What has been sent to the submission, as a function of the locals.\<close>

definition input_sent :: "run_env \<Rightarrow> runner \<Rightarrow> bytes \<Rightarrow> bool" where
  "input_sent e p sent \<longleftrightarrow>
     (if stdin_open p then unat (input_offset p) < length (run_input e) \<and> sent = take (unat (input_offset p)) (run_input e)
      else prefix sent (run_input e))"

text \<open>
  The locals agree with the log \<open>new\<close> of the loop: the output buffers hold what was read, the input sent is
  what \<open>input_offset\<close> says, and a descriptor has been closed once if its flag is down and not otherwise.
\<close>

definition agrees :: "run_env \<Rightarrow> runner \<Rightarrow> call_log \<Rightarrow> bool" where
  "agrees e p new \<longleftrightarrow>
     stdout_read p = got_from (stdout_r e) new \<and> stderr_read p = got_from (stderr_r e) new \<and>
     input_sent e p (put_on (stdin_w e) new) \<and>
     closes (stdin_w e) new = (if stdin_open p then 0 else 1) \<and>
     closes (stdout_r e) new = (if stdout_open p then 0 else 1) \<and>
     closes (stderr_r e) new = (if stderr_open p then 0 else 1) \<and>
     closes (control_r e) new = (if control_channel_open p then 0 else 1) \<and>
     (\<forall>fd. fd \<notin> {stdin_w e, stdout_r e, stderr_r e, control_r e} \<longrightarrow> closes fd new = 0)"

definition tracks :: "run_env \<Rightarrow> 'w proc \<Rightarrow> runner \<Rightarrow> 'w proc \<Rightarrow> bool" where
  "tracks e s0 p s \<longleftrightarrow> (\<exists>new. emits s0 new s \<and> agrees e p new)"

lemma tracks_extend:
  assumes "tracks e s0 p s" "emits s ys t" "\<And>new. agrees e p new \<Longrightarrow> agrees e p' (new @ ys)"
  shows "tracks e s0 p' t"
  using assms emits_trans unfolding tracks_def by blast

lemma tracks_quiet:
  assumes "tracks e s0 p s" "only (quiet e) s t"
  shows "tracks e s0 p t"
proof -
  obtain ys where "emits s ys t" "\<forall>x \<in> set ys. quiet e (fst x)" using assms(2) unfolding only_def by blast
  with tracks_extend [OF assms(1)] quiet_log [of ys e] show ?thesis by (simp add: agrees_def)
qed

text \<open>Locals that no log fact depends on.\<close>

lemma tracks_update:
  "tracks e s0 (p\<lparr>termination_requested := b\<rparr>) s = tracks e s0 p s"
  "tracks e s0 (p\<lparr>supervisor_reaped := b\<rparr>) s = tracks e s0 p s"
  "tracks e s0 (p\<lparr>submission_finished := b\<rparr>) s = tracks e s0 p s"
  "tracks e s0 (p\<lparr>run_status := st\<rparr>) s = tracks e s0 p s"
  "tracks e s0 (p\<lparr>run_usage := u\<rparr>) s = tracks e s0 p s"
  "tracks e s0 (p\<lparr>run_result := res\<rparr>) s = tracks e s0 p s"
  by (simp_all add: tracks_def agrees_def input_sent_def)

lemma input_sent_prefix: "input_sent e p sent \<Longrightarrow> prefix sent (run_input e)"
  by (auto simp: input_sent_def take_is_prefix split: if_splits)

lemma tracks_close:
  assumes "tracks e s0 p s" "distinct_fds e"
  shows
    "stdin_open p \<Longrightarrow> close_stdin K e p s = (p', s') \<Longrightarrow> tracks e s0 p' s'"
    "stdout_open p \<Longrightarrow> close_stdout K e p s = (p', s') \<Longrightarrow> tracks e s0 p' s'"
    "stderr_open p \<Longrightarrow> close_stderr K e p s = (p', s') \<Longrightarrow> tracks e s0 p' s'"
    "control_channel_open p \<Longrightarrow> close_control K e p s = (p', s') \<Longrightarrow> tracks e s0 p' s'"
proof -
  have step: "emits s [(Close fd, fst (K (Close fd) (world s)))] (do_sys K (Close fd) s)" for fd
    by (simp add: emits_def)
  note d = assms(2) [unfolded distinct_fds_def, simplified]
  show "tracks e s0 p' s'" if "stdin_open p" "close_stdin K e p s = (p', s')"
    using that(2) unfolding close_stdin_def prod.inject
    by (elim conjE, hypsubst) (rule tracks_extend [OF assms(1) step],
      use that(1) d in \<open>auto simp: agrees_def input_sent_def take_is_prefix\<close>)
  show "tracks e s0 p' s'" if "stdout_open p" "close_stdout K e p s = (p', s')"
    using that(2) unfolding close_stdout_def prod.inject
    by (elim conjE, hypsubst) (rule tracks_extend [OF assms(1) step],
      use that(1) d in \<open>auto simp: agrees_def input_sent_def\<close>)
  show "tracks e s0 p' s'" if "stderr_open p" "close_stderr K e p s = (p', s')"
    using that(2) unfolding close_stderr_def prod.inject
    by (elim conjE, hypsubst) (rule tracks_extend [OF assms(1) step],
      use that(1) d in \<open>auto simp: agrees_def input_sent_def\<close>)
  show "tracks e s0 p' s'" if "control_channel_open p" "close_control K e p s = (p', s')"
    using that(2) unfolding close_control_def prod.inject
    by (elim conjE, hypsubst) (rule tracks_extend [OF assms(1) step],
      use that(1) d in \<open>auto simp: agrees_def input_sent_def\<close>)
qed

lemma tracks_when_open:
  assumes "tracks e s0 p s" "distinct_fds e"
  shows
    "when_open stdin_open (close_stdin K e) p s = (p', s') \<Longrightarrow> tracks e s0 p' s'"
    "when_open stdout_open (close_stdout K e) p s = (p', s') \<Longrightarrow> tracks e s0 p' s'"
    "when_open stderr_open (close_stderr K e) p s = (p', s') \<Longrightarrow> tracks e s0 p' s'"
    "when_open control_channel_open (close_control K e) p s = (p', s') \<Longrightarrow> tracks e s0 p' s'"
  using tracks_close [OF assms] assms(1) by (auto simp: when_open_def split: if_splits)

lemma tracks_close_pipes:
  assumes "tracks e s0 p s" "distinct_fds e" "close_pipes K e p s = (p', s')"
  shows "tracks e s0 p' s'"
proof -
  obtain p1 s1 where 1: "when_open stdin_open (close_stdin K e) p s = (p1, s1)" by fastforce
  obtain p2 s2 where 2: "when_open stdout_open (close_stdout K e) p1 s1 = (p2, s2)" by fastforce
  have 3: "when_open stderr_open (close_stderr K e) p2 s2 = (p', s')"
    using assms(3) 1 2 by (simp add: close_pipes_def)
  note t1 = tracks_when_open(1) [OF assms(1,2) 1]
  note t2 = tracks_when_open(2) [OF t1 assms(2) 2]
  show ?thesis by (rule tracks_when_open(3) [OF t2 assms(2) 3])
qed

section \<open>The runner's conversation with the supervisor\<close>

definition terminate_bytes :: bytes where
  "terminate_bytes = enc_header \<lparr>msg_type = msg_code Terminate, payload_size = 0\<rparr>"

lemma send_terminate:
  assumes "send_message K fd Terminate [] s = Some (True, s')"
  shows "\<exists>new. emits s new s' \<and> (\<forall>x \<in> set new. writes_to fd (fst x)) \<and> put_on fd new = terminate_bytes"
proof -
  have "write_all K fd terminate_bytes s = Some (True, s')"
    using assms by (auto simp: send_message_def terminate_bytes_def Let_def elim!: bind_SomeE split: if_splits)
  from write_all_Some [OF this] show ?thesis by auto
qed

text \<open>The result after a \<open>Terminated\<close> message, as a function of its payload.\<close>

definition reported_result :: "ExecutionResult \<Rightarrow> bool \<Rightarrow> int \<Rightarrow> SandboxTerminatedPayload \<Rightarrow> ExecutionResult" where
  "reported_result res wall elapsed t =
     (let st = wait_status t;
          res = res\<lparr>wall_time_limit_exceeded := wall, wall_time := elapsed,
            cpu_time := to_microseconds (ru_utime (usage t)) + to_microseconds (ru_stime (usage t)),
            memory_usage_bytes := ru_maxrss (usage t) * 1024\<rparr> in
      if WIFEXITED st then res\<lparr>exit_code := uint (WEXITSTATUS st)\<rparr>
      else if WIFSIGNALED st then res\<lparr>terminated_by_signal := True, signal_number := uint (WTERMSIG st)\<rparr>
      else res)"

text \<open>
  The control socket: \<open>Terminate\<close> has been sent once if \<open>termination_requested\<close>, else nothing. While the
  submission runs nothing has been received; afterwards exactly one \<open>Terminated\<close> message, from which
  the result was filled in, and the supervisor has been waited for.
\<close>

definition told :: "run_env \<Rightarrow> ExecutionResult \<Rightarrow> runner \<Rightarrow> call_log \<Rightarrow> bool" where
  "told e res0 p new \<longleftrightarrow> (\<exists>hdr bs elapsed r. got_from (control_r e) new = hdr @ bs \<and>
     length hdr = sizeof_header \<and> length bs = sizeof_terminated \<and>
     dec_header hdr = \<lparr>msg_type = msg_code Terminated, payload_size = word_of_nat sizeof_terminated\<rparr> \<and>
     run_status p = wait_status (dec_terminated bs) \<and>
     run_result p = reported_result res0 (termination_requested p) elapsed (dec_terminated bs) \<and>
     (Waitpid (supervisor_pid e) Blocking, r) \<in> set new \<and> rv r = supervisor_pid e)"

definition converses :: "run_env \<Rightarrow> ExecutionResult \<Rightarrow> runner \<Rightarrow> call_log \<Rightarrow> bool" where
  "converses e res0 p new \<longleftrightarrow>
     put_on (control_r e) new = (if termination_requested p then terminate_bytes else []) \<and>
     (if submission_finished p then told e res0 p new
      else got_from (control_r e) new = [] \<and>
        run_result p = res0\<lparr>wall_time_limit_exceeded := termination_requested p\<rparr>)"

definition talks :: "run_env \<Rightarrow> ExecutionResult \<Rightarrow> 'w proc \<Rightarrow> runner \<Rightarrow> 'w proc \<Rightarrow> bool" where
  "talks e res0 s0 p s \<longleftrightarrow> (\<exists>new. emits s0 new s \<and> converses e res0 p new)"

definition deaf :: "run_env \<Rightarrow> syscall \<Rightarrow> bool" where
  "deaf e c \<longleftrightarrow> \<not> writes_to (control_r e) c \<and> \<not> reads_from (control_r e) c"

lemma deaf_simps [simp]:
  "deaf e Clock" "deaf e (Poll fds t)" "deaf e (Waitpid pid mode)" "deaf e (Close fd)"
  by (simp_all add: deaf_def writes_to_def reads_from_def)

lemma deaf_io:
  "distinct_fds e \<Longrightarrow> deaf e (Write (stdin_w e) bs)" "distinct_fds e \<Longrightarrow> deaf e (Read (stdout_r e) n)"
  "distinct_fds e \<Longrightarrow> deaf e (Read (stderr_r e) n)"
  by (auto simp: deaf_def writes_to_def reads_from_def distinct_fds_def)

lemma told_append:
  assumes "told e res0 p new" "got_from (control_r e) ys = []"
  shows "told e res0 p (new @ ys)"
proof -
  from assms(1) obtain hdr bs elapsed r where "got_from (control_r e) new = hdr @ bs"
     "length hdr = sizeof_header" "length bs = sizeof_terminated"
     "dec_header hdr = \<lparr>msg_type = msg_code Terminated, payload_size = word_of_nat sizeof_terminated\<rparr>"
     "run_status p = wait_status (dec_terminated bs)"
     "run_result p = reported_result res0 (termination_requested p) elapsed (dec_terminated bs)"
     "(Waitpid (supervisor_pid e) Blocking, r) \<in> set new" "rv r = supervisor_pid e"
    unfolding told_def by blast
  with assms(2) show ?thesis unfolding told_def
    by (intro exI [of _ hdr] exI [of _ bs] exI [of _ elapsed] exI [of _ r]) simp
qed

lemma talks_deaf:
  assumes "talks e res0 s0 p s" "only (deaf e) s t"
  shows "talks e res0 s0 p t"
proof -
  obtain new where n: "emits s0 new s" "converses e res0 p new" using assms(1) unfolding talks_def by blast
  obtain ys where y: "emits s ys t" "\<forall>x \<in> set ys. deaf e (fst x)" using assms(2) unfolding only_def by blast
  then have "put_on (control_r e) ys = []" "got_from (control_r e) ys = []"
    by (auto simp: deaf_def intro!: put_on_none got_from_none)
  with n(2) have "converses e res0 p (new @ ys)" by (simp add: converses_def told_append)
  with emits_trans [OF n(1) y(1)] show ?thesis unfolding talks_def by blast
qed

lemma talks_update:
  "talks e res0 s0 (p\<lparr>stdin_open := b\<rparr>) s = talks e res0 s0 p s"
  "talks e res0 s0 (p\<lparr>stdout_open := b\<rparr>) s = talks e res0 s0 p s"
  "talks e res0 s0 (p\<lparr>stderr_open := b\<rparr>) s = talks e res0 s0 p s"
  "talks e res0 s0 (p\<lparr>control_channel_open := b\<rparr>) s = talks e res0 s0 p s"
  "talks e res0 s0 (p\<lparr>supervisor_reaped := b\<rparr>) s = talks e res0 s0 p s"
  "talks e res0 s0 (p\<lparr>stdout_read := bs\<rparr>) s = talks e res0 s0 p s"
  "talks e res0 s0 (p\<lparr>stderr_read := bs\<rparr>) s = talks e res0 s0 p s"
  "talks e res0 s0 (p\<lparr>input_offset := i\<rparr>) s = talks e res0 s0 p s"
  "talks e res0 s0 (p\<lparr>poll_fds := fds\<rparr>) s = talks e res0 s0 p s"
  by (simp_all add: talks_def converses_def told_def)

lemmas close_defs = close_stdin_def close_stdout_def close_stderr_def close_control_def

lemma talks_close:
  assumes "talks e res0 s0 p s"
  shows "close_stdin K e p s = (p', s') \<Longrightarrow> talks e res0 s0 p' s'"
    "close_stdout K e p s = (p', s') \<Longrightarrow> talks e res0 s0 p' s'"
    "close_stderr K e p s = (p', s') \<Longrightarrow> talks e res0 s0 p' s'"
    "close_control K e p s = (p', s') \<Longrightarrow> talks e res0 s0 p' s'"
proof -
  have "talks e res0 s0 p (do_sys K (Close fd) s)" for fd
    by (rule talks_deaf [OF assms]) (rule only_do_sys, simp)
  then show "close_stdin K e p s = (p', s') \<Longrightarrow> talks e res0 s0 p' s'"
    "close_stdout K e p s = (p', s') \<Longrightarrow> talks e res0 s0 p' s'"
    "close_stderr K e p s = (p', s') \<Longrightarrow> talks e res0 s0 p' s'"
    "close_control K e p s = (p', s') \<Longrightarrow> talks e res0 s0 p' s'"
    by (auto simp: close_defs talks_update)
qed

lemma talks_when_open:
  assumes "talks e res0 s0 p s" "when_open c f p s = (p', s')"
    "\<And>p' s'. f p s = (p', s') \<Longrightarrow> talks e res0 s0 p' s'"
  shows "talks e res0 s0 p' s'"
  using assms by (auto simp: when_open_def split: if_splits)

lemma talks_close_pipes:
  assumes "talks e res0 s0 p s" "close_pipes K e p s = (p', s')"
  shows "talks e res0 s0 p' s'"
proof -
  obtain p1 s1 where 1: "when_open stdin_open (close_stdin K e) p s = (p1, s1)" by fastforce
  obtain p2 s2 where 2: "when_open stdout_open (close_stdout K e) p1 s1 = (p2, s2)" by fastforce
  have 3: "when_open stderr_open (close_stderr K e) p2 s2 = (p', s')"
    using assms(2) 1 2 by (simp add: close_pipes_def)
  note t1 = talks_when_open [OF assms(1) 1 talks_close(1) [OF assms(1)]]
  note t2 = talks_when_open [OF t1 2 talks_close(2) [OF t1]]
  show ?thesis by (rule talks_when_open [OF t2 3 talks_close(3) [OF t2]])
qed

section \<open>The loop invariant\<close>

definition poll_entry :: "bool \<Rightarrow> int \<Rightarrow> int" where
  "poll_entry open_flag fd = (if open_flag then fd else - 1)"

definition flags_ok :: "run_env \<Rightarrow> runner \<Rightarrow> bool" where
  "flags_ok e p \<longleftrightarrow>
     poll_fds p = [poll_entry (stdin_open p) (stdin_w e), poll_entry (stdout_open p) (stdout_r e),
       poll_entry (stderr_open p) (stderr_r e), poll_entry (control_channel_open p) (control_r e)] \<and>
     (if submission_finished p then all_closed p \<and> \<not> control_channel_open p \<and> supervisor_reaped p
      else control_channel_open p \<and> \<not> supervisor_reaped p)"

definition run_inv :: "run_env \<Rightarrow> ExecutionResult \<Rightarrow> 'w proc \<Rightarrow> runner \<Rightarrow> 'w proc \<Rightarrow> bool" where
  "run_inv e res0 s0 p s \<longleftrightarrow> tracks e s0 p s \<and> talks e res0 s0 p s \<and> flags_ok e p"

definition failure :: "ExecutionResult \<Rightarrow> bool" where
  "failure res \<longleftrightarrow> status res = RunnerFailure \<or> status res = SandboxFailure"

text \<open>A step keeps the invariant or returns a failure.\<close>

definition sound_step :: "run_env \<Rightarrow> ExecutionResult \<Rightarrow> 'w proc \<Rightarrow> 'w run_step \<Rightarrow> bool" where
  "sound_step e res0 s0 m \<longleftrightarrow> (\<forall>x s. m = Some (x, s) \<longrightarrow>
     (case x of Inl res \<Rightarrow> failure res | Inr p \<Rightarrow> run_inv e res0 s0 p s))"

lemma sound_and_then:
  assumes "sound_step e res0 s0 m" "\<And>p s. run_inv e res0 s0 p s \<Longrightarrow> sound_step e res0 s0 (f p s)"
  shows "sound_step e res0 s0 (and_then m f)"
proof (cases m)
  case None
  then show ?thesis by (simp add: and_then_def sound_step_def)
next
  case (Some a)
  obtain x s where a: "a = (x, s)" by fastforce
  show ?thesis
  proof (cases x)
    case (Inl res)
    with Some a assms(1) show ?thesis by (auto simp: and_then_def sound_step_def)
  next
    case (Inr p)
    with Some a assms have "sound_step e res0 s0 (f p s)" by (simp add: sound_step_def)
    with Some a Inr show ?thesis by (simp add: and_then_def)
  qed
qed

text \<open>The hypotheses of the loop's correctness, and the parts of the invariant a step needs.\<close>

definition fit :: "'w kernel \<Rightarrow> run_env \<Rightarrow> ExecutionResult \<Rightarrow> bool" where
  "fit K e res0 \<longleftrightarrow> honest K \<and> distinct_fds e \<and> length (run_input e) < 2 ^ 63 \<and> status res0 = RunnerFailure"

lemma run_inv_running: "run_inv e res0 s0 p s \<Longrightarrow> \<not> submission_finished p \<Longrightarrow>
  run_result p = res0\<lparr>wall_time_limit_exceeded := termination_requested p\<rparr>"
  by (auto simp: run_inv_def talks_def converses_def)

lemma run_inv_quiet_deaf:
  assumes "run_inv e res0 s0 p s" "only (\<lambda>c. quiet e c \<and> deaf e c) s t"
  shows "run_inv e res0 s0 p t"
proof -
  have "only (quiet e) s t" "only (deaf e) s t" by (rule only_mono [OF assms(2)], simp)+
  with assms(1) show ?thesis unfolding run_inv_def by (auto intro: tracks_quiet talks_deaf)
qed

lemma flags_update:
  "flags_ok e (p\<lparr>stdout_read := bs\<rparr>) = flags_ok e p"
  "flags_ok e (p\<lparr>stderr_read := bs\<rparr>) = flags_ok e p"
  "flags_ok e (p\<lparr>input_offset := i\<rparr>) = flags_ok e p"
  by (simp_all add: flags_ok_def all_closed_def)

lemma flags_close:
  assumes "flags_ok e p"
  shows "close_stdin K e p s = (p', s') \<Longrightarrow> flags_ok e p'"
    "close_stdout K e p s = (p', s') \<Longrightarrow> flags_ok e p'"
    "close_stderr K e p s = (p', s') \<Longrightarrow> flags_ok e p'"
  using assms by (cases "submission_finished p"; auto simp: flags_ok_def close_defs poll_entry_def all_closed_def)+

text \<open>The poll array and the flags after \<open>close_pipes\<close>.\<close>

definition synced :: "run_env \<Rightarrow> runner \<Rightarrow> bool" where
  "synced e p \<longleftrightarrow>
     poll_fds p = [poll_entry (stdin_open p) (stdin_w e), poll_entry (stdout_open p) (stdout_r e),
       poll_entry (stderr_open p) (stderr_r e), poll_entry (control_channel_open p) (control_r e)]"

definition rest_of :: "runner \<Rightarrow> _" where
  "rest_of p = (termination_requested p, control_channel_open p, supervisor_reaped p, submission_finished p,
     run_status p, run_result p)"

lemma when_open_fields:
  assumes "synced e p"
  shows "when_open stdin_open (close_stdin K e) p s = (p', s') \<Longrightarrow> synced e p' \<and> \<not> stdin_open p' \<and>
      stdout_open p' = stdout_open p \<and> stderr_open p' = stderr_open p \<and> rest_of p' = rest_of p"
    "when_open stdout_open (close_stdout K e) p s = (p', s') \<Longrightarrow> synced e p' \<and> \<not> stdout_open p' \<and>
      stdin_open p' = stdin_open p \<and> stderr_open p' = stderr_open p \<and> rest_of p' = rest_of p"
    "when_open stderr_open (close_stderr K e) p s = (p', s') \<Longrightarrow> synced e p' \<and> \<not> stderr_open p' \<and>
      stdin_open p' = stdin_open p \<and> stdout_open p' = stdout_open p \<and> rest_of p' = rest_of p"
  using assms
  by (auto simp: synced_def rest_of_def when_open_def close_defs poll_entry_def split: if_splits)

lemma close_pipes_fields:
  assumes "synced e p" "close_pipes K e p s = (p', s')"
  shows "synced e p' \<and> \<not> stdin_open p' \<and> \<not> stdout_open p' \<and> \<not> stderr_open p' \<and> rest_of p' = rest_of p"
proof -
  obtain p1 s1 where 1: "when_open stdin_open (close_stdin K e) p s = (p1, s1)" by fastforce
  obtain p2 s2 where 2: "when_open stdout_open (close_stdout K e) p1 s1 = (p2, s2)" by fastforce
  have 3: "when_open stderr_open (close_stderr K e) p2 s2 = (p', s')"
    using assms(2) 1 2 by (simp add: close_pipes_def)
  note f1 = when_open_fields(1) [OF assms(1) 1]
  note f2 = when_open_fields(2) [OF conjunct1 [OF f1] 2]
  note f3 = when_open_fields(3) [OF conjunct1 [OF f2] 3]
  show ?thesis using f1 f2 f3 by simp
qed

lemma run_inv_close:
  assumes "run_inv e res0 s0 p s" "distinct_fds e"
  shows "stdin_open p \<Longrightarrow> close_stdin K e p s = (p', s') \<Longrightarrow> run_inv e res0 s0 p' s'"
    "stdout_open p \<Longrightarrow> close_stdout K e p s = (p', s') \<Longrightarrow> run_inv e res0 s0 p' s'"
    "stderr_open p \<Longrightarrow> close_stderr K e p s = (p', s') \<Longrightarrow> run_inv e res0 s0 p' s'"
  using assms unfolding run_inv_def
  by (blast intro: tracks_close talks_close flags_close)+

section \<open>Failure paths\<close>

lemma when_open_result:
  "when_open c (close_stdin K e) p s = (p', s') \<Longrightarrow> run_result p' = run_result p"
  "when_open c (close_stdout K e) p s = (p', s') \<Longrightarrow> run_result p' = run_result p"
  "when_open c (close_stderr K e) p s = (p', s') \<Longrightarrow> run_result p' = run_result p"
  "when_open c (close_control K e) p s = (p', s') \<Longrightarrow> run_result p' = run_result p"
  by (auto simp: when_open_def close_defs split: if_splits)

lemma cleanup_after_failure_result:
  assumes "cleanup_after_failure K e p s = Some (ok, p', s')"
  shows "run_result p' = run_result p"
proof -
  obtain p1 s1 where 1: "when_open stdin_open (close_stdin K e) p s = (p1, s1)" by fastforce
  obtain p2 s2 where 2: "(if control_channel_open p1 then do {
         (sent, s) \<leftarrow> send_message K (control_r e) Terminate [] s1;
         Some (if sent then (p1\<lparr>termination_requested := True\<rparr>, s) else close_control K e p1 s)
       } else Some (p1, s1)) = Some (p2, s2)"
    using assms 1 unfolding cleanup_after_failure_def Let_def by (auto elim!: bind_SomeE)
  then have r2: "run_result p2 = run_result p1"
    by (auto simp: close_control_def elim!: bind_SomeE split: if_splits)
  obtain s3 where "(if supervisor_pid e > 0 then reap_and_contain K e s2 else Some (True, s2)) = Some (ok, s3)"
    and 3: "(case when_open stdout_open (close_stdout K e) p2 s3 of (p, s) \<Rightarrow>
       case when_open stderr_open (close_stderr K e) p s of (p, s) \<Rightarrow>
       case when_open control_channel_open (close_control K e) p s of (p, s) \<Rightarrow> (ok, p, s)) = (ok, p', s')"
    using assms 1 2 unfolding cleanup_after_failure_def Let_def by (auto elim!: bind_SomeE split: prod.splits)
  from 3 r2 when_open_result(1) [OF 1] show ?thesis
    by (auto split: prod.splits dest!: when_open_result)
qed

lemma sound_give_up:
  "failure (run_result p) \<Longrightarrow> sound_step e res0 s0 (give_up K e p s)"
  "sound_step e res0 s0 (give_up_runner K e p s)"
  "sound_step e res0 s0 (give_up_classified K e p s)"
  by (auto simp: sound_step_def give_up_def give_up_runner_def give_up_classified_def failure_def
    elim!: bind_SomeE dest: cleanup_after_failure_result)

lemma sound_Inr: "run_inv e res0 s0 p s \<Longrightarrow> sound_step e res0 s0 (Some (Inr p, s))"
  by (simp add: sound_step_def)

lemma sound_bind:
  assumes "\<And>a. m = Some a \<Longrightarrow> sound_step e res0 s0 (f a)"
  shows "sound_step e res0 s0 (Option.bind m f)"
  using assms by (cases m) (auto simp: sound_step_def)

section \<open>The steps keep the invariant\<close>

lemma sound_enforce_deadline:
  assumes "fit K e res0" "run_inv e res0 s0 p s"
  shows "sound_step e res0 s0 (enforce_deadline K e now p s)"
proof (cases "\<not> submission_finished p \<and> \<not> termination_requested p \<and> now \<ge> deadline e")
  case False
  with assms(2) show ?thesis by (auto simp: enforce_deadline_def sound_Inr)
next
  case True
  have d: "distinct_fds e" using assms(1) by (simp add: fit_def)
  note res = run_inv_running [OF assms(2)]
  let ?p = "p\<lparr>termination_requested := True, run_result := (run_result p)\<lparr>wall_time_limit_exceeded := True\<rparr>\<rparr>"
  have eq: "enforce_deadline K e now p s = Option.bind (send_message K (control_r e) Terminate [] s)
    (\<lambda>(sent, s). if \<not> sent then give_up K e p s
       else case when_open stdin_open (close_stdin K e) ?p s of (p, s) \<Rightarrow> Some (Inr p, s))"
    using True unfolding enforce_deadline_def Let_def by simp
  have fail: "sound_step e res0 s0 (give_up K e p s1)" for s1
    by (rule sound_give_up(1)) (use res True assms(1) in \<open>simp add: failure_def fit_def\<close>)
  have "sound_step e res0 s0 (case when_open stdin_open (close_stdin K e) ?p s1 of (p, s) \<Rightarrow> Some (Inr p, s))"
    if m: "send_message K (control_r e) Terminate [] s = Some (True, s1)" for s1
  proof -
    obtain ys where y: "emits s ys s1" "\<forall>x \<in> set ys. writes_to (control_r e) (fst x)"
      "put_on (control_r e) ys = terminate_bytes" using send_terminate [OF m] by blast
    then have "only (quiet e) s s1" unfolding only_def using writes_control_quiet [OF d] by blast
    with assms(2) have "tracks e s0 p s1" unfolding run_inv_def by (blast intro: tracks_quiet)
    then have t: "tracks e s0 ?p s1" by (simp add: tracks_update)
    obtain new where n: "emits s0 new s" "converses e res0 p new"
      using assms(2) unfolding run_inv_def talks_def by blast
    have "got_from (control_r e) ys = []"
      using y(2) by (auto simp: writes_to_def reads_from_def split: syscall.splits intro!: got_from_none)
    with n(2) y(3) True have "converses e res0 ?p (new @ ys)" by (simp add: converses_def)
    with emits_trans [OF n(1) y(1)] have "talks e res0 s0 ?p s1" unfolding talks_def by blast
    moreover have "flags_ok e ?p" using assms(2) True by (simp add: run_inv_def flags_ok_def)
    ultimately have i: "run_inv e res0 s0 ?p s1" using t by (simp add: run_inv_def)
    show ?thesis using i run_inv_close(1) [OF i d]
      by (auto simp: when_open_def sound_step_def split: prod.splits)
  qed
  with fail show ?thesis unfolding eq by (intro sound_bind) (auto split: if_splits)
qed

text \<open>The invariant while a message is being received: \<open>got\<close> has come in so far.\<close>

definition receiving :: "run_env \<Rightarrow> ExecutionResult \<Rightarrow> 'w proc \<Rightarrow> runner \<Rightarrow> bytes \<Rightarrow> 'w proc \<Rightarrow> bool" where
  "receiving e res0 s0 p got s \<longleftrightarrow> tracks e s0 p s \<and> flags_ok e p \<and> \<not> submission_finished p \<and>
     run_result p = res0\<lparr>wall_time_limit_exceeded := termination_requested p\<rparr> \<and>
     (\<exists>new. emits s0 new s \<and> got_from (control_r e) new = got \<and>
        put_on (control_r e) new = (if termination_requested p then terminate_bytes else []))"

lemma receiving_start:
  "run_inv e res0 s0 p s \<Longrightarrow> \<not> submission_finished p \<Longrightarrow> receiving e res0 s0 p [] s"
  by (auto simp: run_inv_def receiving_def talks_def converses_def)

lemma receiving_read:
  assumes "receiving e res0 s0 p got s" "fit K e res0" "read_all K (control_r e) n s = Some ((True, bs), t)"
  shows "receiving e res0 s0 p (got @ bs) t \<and> length bs = n"
proof -
  have h: "honest K" "distinct_fds e" using assms(2) by (simp_all add: fit_def)
  obtain ys where y: "emits s ys t" "\<forall>x \<in> set ys. reads_from (control_r e) (fst x)"
    "bs = got_from (control_r e) ys" "length bs = n" using read_all_exact [OF h(1) assms(3)] by blast
  have "only (quiet e) s t" unfolding only_def using y(1,2) reads_control_quiet [OF h(2)] by blast
  with assms(1) have t: "tracks e s0 p t" unfolding receiving_def by (blast intro: tracks_quiet)
  have p: "put_on (control_r e) ys = []"
    using y(2) by (auto simp: writes_to_def reads_from_def split: syscall.splits intro!: put_on_none)
  obtain new where n: "emits s0 new s" "got_from (control_r e) new = got"
    "put_on (control_r e) new = (if termination_requested p then terminate_bytes else [])"
    using assms(1) unfolding receiving_def by blast
  have "got_from (control_r e) (new @ ys) = got @ bs"
    "put_on (control_r e) (new @ ys) = (if termination_requested p then terminate_bytes else [])"
    using n(2,3) p y(3) by simp_all
  with emits_trans [OF n(1) y(1)] assms(1) t y(4) show ?thesis unfolding receiving_def by blast
qed

lemma sound_handle_setup_failed:
  "sound_step e res0 s0 (handle_setup_failed K e header p s)"
proof -
  have "sound_step e res0 s0 (case close_pipes K e q t of (p, s) \<Rightarrow> Some (Inl ((run_result p)\<lparr>status := SandboxFailure\<rparr>), s))" for q t
    by (simp add: sound_step_def failure_def split: prod.splits)
  then show ?thesis unfolding handle_setup_failed_def Let_def
    by (auto intro!: sound_bind sound_give_up split: if_splits)
qed

text \<open>Reaping the supervisor after its last message.\<close>

lemma finish_supervisor:
  assumes "finish_supervisor_terminal K e p s = Some (True, p', s')" "control_channel_open p"
  shows "\<exists>p1 s1. close_control K e p s = (p1, s1) \<and> p' = p1\<lparr>supervisor_reaped := True\<rparr> \<and>
    only (quiet e) s1 s' \<and>
    (\<exists>new. emits s1 new s' \<and> (\<forall>x \<in> set new. deaf e (fst x)) \<and>
       (\<exists>r. (Waitpid (supervisor_pid e) Blocking, r) \<in> set new \<and> rv r = supervisor_pid e))"
proof -
  obtain p1 s1 where c: "close_control K e p s = (p1, s1)" by fastforce
  from assms c obtain r where r: "retry K (Waitpid (supervisor_pid e) Blocking) s1 = Some (r, s')"
    "rv r = supervisor_pid e" "p' = p1\<lparr>supervisor_reaped := True\<rparr>"
    unfolding finish_supervisor_terminal_def Let_def
    by (auto simp: when_open_def elim!: bind_SomeE split: if_splits)
  obtain n where n: "emits s1 (replicate n (Waitpid (supervisor_pid e) Blocking, Fail EINTR) @
      [(Waitpid (supervisor_pid e) Blocking, r)]) s'" using retry_Some [OF r(1)] by blast
  have "only (quiet e) s1 s'" by (rule retry_only [OF r(1)]) simp
  moreover have "\<exists>new. emits s1 new s' \<and> (\<forall>x \<in> set new. deaf e (fst x)) \<and>
       (\<exists>r. (Waitpid (supervisor_pid e) Blocking, r) \<in> set new \<and> rv r = supervisor_pid e)"
    using n r(2) by (intro exI [of _ "replicate n (Waitpid (supervisor_pid e) Blocking, Fail EINTR) @
      [(Waitpid (supervisor_pid e) Blocking, r)]"]) auto
  ultimately show ?thesis using c r(3) by blast
qed

text \<open>The whole handling of a \<open>Terminated\<close> message whose payload has arrived.\<close>

lemma terminated_inv:
  assumes r: "receiving e res0 s0 p (hdr @ bs) s" and d: "distinct_fds e"
    and len: "length hdr = sizeof_header" "length bs = sizeof_terminated"
    and hdr: "dec_header hdr = \<lparr>msg_type = msg_code Terminated, payload_size = word_of_nat sizeof_terminated\<rparr>"
    and p1: "p1 = p\<lparr>run_status := wait_status (dec_terminated bs), run_usage := usage (dec_terminated bs),
               submission_finished := True\<rparr>"
    and fin: "finish_supervisor_terminal K e p1 s = Some (True, p2, s2)"
    and usg: "finalize_resource_usage K e p2 s2 = (p3, s3)"
    and cls: "close_pipes K e (finalize_status p3) s3 = (p4, s4)"
  shows "run_inv e res0 s0 p4 s4"
proof -
  have open_control: "control_channel_open p1"
    using r p1 by (simp add: receiving_def flags_ok_def)
  from finish_supervisor [OF fin open_control] obtain q t new where q: "close_control K e p1 s = (q, t)"
    "p2 = q\<lparr>supervisor_reaped := True\<rparr>" "only (quiet e) t s2" "emits t new s2"
    "\<forall>x \<in> set new. deaf e (fst x)" and w: "\<exists>r. (Waitpid (supervisor_pid e) Blocking, r) \<in> set new \<and> rv r = supervisor_pid e"
    by blast
  obtain now where now: "sys K Clock s2 = (now, s3)" using usg by (auto simp: finalize_resource_usage_def split: prod.splits)
  have clock: "only (quiet e) s2 s3" "only (deaf e) s2 s3" by (rule only_sys [OF _ now], simp)+
  \<comment> \<open>the log of the submission's streams\<close>
  have "tracks e s0 p1 s" using r p1 by (simp add: receiving_def tracks_update)
  from tracks_close(4) [OF this d open_control q(1)] have "tracks e s0 q s2" by (rule tracks_quiet [OF _ q(3)])
  then have "tracks e s0 p2 s3" using tracks_quiet [OF _ clock(1)] by (simp add: q(2) tracks_update)
  then have "tracks e s0 (finalize_status p3) s3"
    using usg now by (auto simp: finalize_resource_usage_def finalize_status_def tracks_update)
  from tracks_close_pipes [OF this d cls] have tr: "tracks e s0 p4 s4" .
  \<comment> \<open>the flags\<close>
  have "synced e p2" using r q(1,2) p1
    by (auto simp: receiving_def flags_ok_def synced_def close_control_def poll_entry_def)
  then have sy: "synced e (finalize_status p3)"
    using usg now by (auto simp: finalize_resource_usage_def finalize_status_def synced_def)
  note f4 = close_pipes_fields [OF sy cls]
  have rest2: "termination_requested p2 = termination_requested p" "\<not> control_channel_open p2" "supervisor_reaped p2"
    "submission_finished p2" "run_status p2 = wait_status (dec_terminated bs)" "run_result p2 = run_result p"
    "run_usage p2 = usage (dec_terminated bs)"
    using q(1,2) p1 by (auto simp: close_control_def)
  then have rest3: "rest_of (finalize_status p3) = (termination_requested p, False, True, True,
      wait_status (dec_terminated bs), run_result (finalize_status p3))"
    using usg now by (auto simp: rest_of_def finalize_resource_usage_def finalize_status_def)
  with f4 have fl: "flags_ok e p4" by (auto simp: flags_ok_def synced_def all_closed_def rest_of_def)
  \<comment> \<open>the conversation\<close>
  have res: "run_result (finalize_status p3) = reported_result res0 (termination_requested p)
      ((rv now - start_time e) sdiv 1000000) (dec_terminated bs)"
    using usg now rest2 r
    by (auto simp: finalize_resource_usage_def finalize_status_def reported_result_def receiving_def Let_def)
  obtain old where o: "emits s0 old s" "got_from (control_r e) old = hdr @ bs"
    "put_on (control_r e) old = (if termination_requested p then terminate_bytes else [])"
    using r unfolding receiving_def by blast
  obtain cr where cr: "emits s [(Close (control_r e), cr)] t"
    using q(1) by (auto simp: close_control_def emits_def)
  have "converses e res0 (finalize_status p3) (old @ [(Close (control_r e), cr)] @ new)"
  proof -
    have "put_on (control_r e) new = []" "got_from (control_r e) new = []"
      using q(5) by (auto simp: deaf_def intro!: put_on_none got_from_none)
    moreover obtain r where "(Waitpid (supervisor_pid e) Blocking, r) \<in> set new" "rv r = supervisor_pid e" using w by blast
    ultimately have "told e res0 (finalize_status p3) (old @ [(Close (control_r e), cr)] @ new)"
      using o(2) len hdr res rest3 unfolding told_def
      by (intro exI [of _ hdr] exI [of _ bs] exI [of _ "(rv now - start_time e) sdiv 1000000"] exI [of _ r])
         (simp add: rest_of_def)
    with o(3) \<open>put_on (control_r e) new = []\<close> rest3 show ?thesis by (simp add: converses_def rest_of_def)
  qed
  moreover have "emits s0 (old @ [(Close (control_r e), cr)] @ new) s2"
    using emits_trans [OF o(1) emits_trans [OF cr q(4)]] .
  ultimately have "talks e res0 s0 (finalize_status p3) s2" unfolding talks_def by blast
  from talks_close_pipes [OF talks_deaf [OF this clock(2)] cls] tr fl show ?thesis by (simp add: run_inv_def)
qed

lemma sound_handle_terminated:
  assumes f: "fit K e res0" and r: "receiving e res0 s0 p hdr s"
    and len: "length hdr = sizeof_header" and ty: "msg_type (dec_header hdr) = msg_code Terminated"
  shows "sound_step e res0 s0 (handle_terminated K e (dec_header hdr) p s)"
proof (cases "unat (payload_size (dec_header hdr)) = sizeof_terminated")
  case False
  then show ?thesis by (simp add: handle_terminated_def sound_give_up)
next
  case True
  then have "payload_size (dec_header hdr) = word_of_nat sizeof_terminated" by (simp flip: True)
  with ty have hdr: "dec_header hdr = \<lparr>msg_type = msg_code Terminated, payload_size = word_of_nat sizeof_terminated\<rparr>"
    by (cases "dec_header hdr") simp
  show ?thesis unfolding sound_step_def
  proof (intro allI impI)
    fix x s'
    assume eq: "handle_terminated K e (dec_header hdr) p s = Some (x, s')"
    with True obtain ok bs s1 where rd: "read_all K (control_r e) sizeof_terminated s = Some ((ok, bs), s1)"
      unfolding handle_terminated_def by (auto elim!: bind_SomeE)
    show "case x of Inl res \<Rightarrow> failure res | Inr p \<Rightarrow> run_inv e res0 s0 p s'"
    proof (cases ok)
      case False
      with eq True rd have "give_up_classified K e p s1 = Some (x, s')" by (simp add: handle_terminated_def)
      then show ?thesis using sound_give_up(3) [of e res0 s0 K p s1] by (simp add: sound_step_def)
    next
      case True
      note ok = True
      let ?p1 = "p\<lparr>run_status := wait_status (dec_terminated bs), run_usage := usage (dec_terminated bs),
               submission_finished := True\<rparr>"
      from rd ok receiving_read [OF r f] have r2: "receiving e res0 s0 p (hdr @ bs) s1" "length bs = sizeof_terminated" by auto
      from eq \<open>unat _ = _\<close> rd ok obtain ok2 p2 s2 where fin: "finish_supervisor_terminal K e ?p1 s1 = Some (ok2, p2, s2)"
        unfolding handle_terminated_def Let_def by (auto elim!: bind_SomeE)
      show ?thesis
      proof (cases ok2)
        case False
        with eq \<open>unat _ = _\<close> rd ok fin have "\<exists>res. x = Inl res \<and> failure res"
          unfolding handle_terminated_def Let_def by (auto simp: failure_def split: prod.splits)
        then show ?thesis by auto
      next
        case True
        obtain p3 s3 where u: "finalize_resource_usage K e p2 s2 = (p3, s3)" by fastforce
        obtain p4 s4 where c: "close_pipes K e (finalize_status p3) s3 = (p4, s4)" by fastforce
        from eq \<open>unat _ = _\<close> rd ok fin True u c have "x = Inr p4" "s' = s4"
          unfolding handle_terminated_def Let_def by auto
        moreover have "finish_supervisor_terminal K e ?p1 s1 = Some (True, p2, s2)" using fin True by simp
        from terminated_inv [OF r2(1) _ len r2(2) hdr refl this u c] have "run_inv e res0 s0 p4 s4"
          using f by (simp add: fit_def)
        ultimately show ?thesis by simp
      qed
    qed
  qed
qed

lemma sound_runner_control:
  assumes f: "fit K e res0" and i: "run_inv e res0 s0 p s"
  shows "sound_step e res0 s0 (runner_control K e ready p s)"
proof (cases "control_channel_open p \<and> has_flag (revents ready 3) (POLLIN OR POLLERR OR POLLHUP)")
  case False
  then show ?thesis by (auto simp: runner_control_def sound_Inr [OF i])
next
  case True
  then have "\<not> submission_finished p" using i by (auto simp: run_inv_def flags_ok_def split: if_splits)
  note r = receiving_start [OF i this]
  have "sound_step e res0 s0 (if \<not> ok then give_up_runner K e p t else let header = dec_header bs in
        if msg_type header = msg_code SetupFailed then handle_setup_failed K e header p t
        else if msg_type header = msg_code Terminated then handle_terminated K e header p t
        else give_up_runner K e p t)"
    if rd: "read_all K (control_r e) sizeof_header s = Some ((ok, bs), t)" for ok bs t
  proof (cases ok)
    case True
    with rd receiving_read [OF r f] have "receiving e res0 s0 p bs t" "length bs = sizeof_header" by auto
    with sound_handle_terminated [OF f] True show ?thesis
      by (simp add: Let_def sound_handle_setup_failed sound_give_up del: msg_code.simps)
  qed (simp add: sound_give_up)
  with True show ?thesis unfolding runner_control_def
    by (simp add: del: msg_code.simps) (rule sound_bind, auto)
qed

text \<open>Reading the submission's output.\<close>

lemma tracks_stdout:
  assumes "tracks e s0 p s" "distinct_fds e" "retry K (Read (stdout_r e) n) s = Some (r, t)"
  shows "tracks e s0 (p\<lparr>stdout_read := stdout_read p @ reply_data r\<rparr>) t"
proof -
  obtain k where k: "emits s (replicate k (Read (stdout_r e) n, Fail EINTR) @ [(Read (stdout_r e) n, r)]) t"
    using retry_Some [OF assms(3)] by blast
  show ?thesis by (rule tracks_extend [OF assms(1) k])
    (use assms(2) in \<open>simp add: agrees_def input_sent_def distinct_fds_def\<close>)
qed

lemma tracks_stderr:
  assumes "tracks e s0 p s" "distinct_fds e" "retry K (Read (stderr_r e) n) s = Some (r, t)"
  shows "tracks e s0 (p\<lparr>stderr_read := stderr_read p @ reply_data r\<rparr>) t"
proof -
  obtain k where k: "emits s (replicate k (Read (stderr_r e) n, Fail EINTR) @ [(Read (stderr_r e) n, r)]) t"
    using retry_Some [OF assms(3)] by blast
  show ?thesis by (rule tracks_extend [OF assms(1) k])
    (use assms(2) in \<open>simp add: agrees_def input_sent_def distinct_fds_def\<close>)
qed

lemma sound_runner_stdout:
  assumes f: "fit K e res0" and i: "run_inv e res0 s0 p s"
  shows "sound_step e res0 s0 (runner_stdout K e ready p s)"
proof (cases "stdout_open p \<and> has_flag (revents ready 1) (POLLIN OR POLLHUP)")
  case False
  then show ?thesis by (auto simp: runner_stdout_def sound_Inr [OF i])
next
  case True
  have d: "distinct_fds e" using f by (simp add: fit_def)
  have step: "run_inv e res0 s0 (p\<lparr>stdout_read := stdout_read p @ reply_data r\<rparr>) t"
    if rd: "retry K (Read (stdout_r e) IO_BUFFER_SIZE) s = Some (r, t)" for r t
  proof -
    have "only (deaf e) s t" by (rule retry_only [OF rd]) (rule deaf_io [OF d])
    with i have "talks e res0 s0 p t" unfolding run_inv_def by (blast intro: talks_deaf)
    moreover have "tracks e s0 (p\<lparr>stdout_read := stdout_read p @ reply_data r\<rparr>) t"
      using i d rd unfolding run_inv_def by (blast intro: tracks_stdout)
    ultimately show ?thesis using i by (simp add: run_inv_def talks_update flags_update)
  qed
  have "sound_step e res0 s0 (if rv r = - 1 then give_up_classified K e p t
        else if rv r = 0 then (case close_stdout K e p t of (p, s) \<Rightarrow> Some (Inr p, s))
        else Some (Inr (p\<lparr>stdout_read := stdout_read p @ reply_data r\<rparr>), t))"
    if rd: "retry K (Read (stdout_r e) IO_BUFFER_SIZE) s = Some (r, t)" for r t
  proof (cases "rv r = 0")
    case zero: True
    then have "reply_data r = []" by (cases r) auto
    with step [OF rd] have "run_inv e res0 s0 p t" by simp
    from run_inv_close(2) [OF this d] True zero show ?thesis by (auto intro!: sound_Inr split: prod.splits)
  qed (auto simp: sound_give_up sound_Inr step [OF rd])
  with True show ?thesis unfolding runner_stdout_def by simp (rule sound_bind, auto)
qed

lemma sound_runner_stderr:
  assumes f: "fit K e res0" and i: "run_inv e res0 s0 p s"
  shows "sound_step e res0 s0 (runner_stderr K e ready p s)"
proof (cases "stderr_open p \<and> has_flag (revents ready 2) (POLLIN OR POLLHUP)")
  case False
  then show ?thesis by (auto simp: runner_stderr_def sound_Inr [OF i])
next
  case True
  have d: "distinct_fds e" using f by (simp add: fit_def)
  have step: "run_inv e res0 s0 (p\<lparr>stderr_read := stderr_read p @ reply_data r\<rparr>) t"
    if rd: "retry K (Read (stderr_r e) IO_BUFFER_SIZE) s = Some (r, t)" for r t
  proof -
    have "only (deaf e) s t" by (rule retry_only [OF rd]) (rule deaf_io [OF d])
    with i have "talks e res0 s0 p t" unfolding run_inv_def by (blast intro: talks_deaf)
    moreover have "tracks e s0 (p\<lparr>stderr_read := stderr_read p @ reply_data r\<rparr>) t"
      using i d rd unfolding run_inv_def by (blast intro: tracks_stderr)
    ultimately show ?thesis using i by (simp add: run_inv_def talks_update flags_update)
  qed
  have "sound_step e res0 s0 (if rv r = - 1 then give_up_classified K e p t
        else if rv r = 0 then (case close_stderr K e p t of (p, s) \<Rightarrow> Some (Inr p, s))
        else Some (Inr (p\<lparr>stderr_read := stderr_read p @ reply_data r\<rparr>), t))"
    if rd: "retry K (Read (stderr_r e) IO_BUFFER_SIZE) s = Some (r, t)" for r t
  proof (cases "rv r = 0")
    case zero: True
    then have "reply_data r = []" by (cases r) auto
    with step [OF rd] have "run_inv e res0 s0 p t" by simp
    from run_inv_close(3) [OF this d] True zero show ?thesis by (auto intro!: sound_Inr split: prod.splits)
  qed (auto simp: sound_give_up sound_Inr step [OF rd])
  with True show ?thesis unfolding runner_stderr_def by simp (rule sound_bind, auto)
qed

text \<open>Writing the next chunk of the input.\<close>

lemma tracks_write:
  assumes "tracks e s0 p s" "distinct_fds e" "stdin_open p"
    "retry K (Write (stdin_w e) chunk) s = Some (r, t)"
    "\<And>sent. input_sent e p sent \<Longrightarrow> input_sent e p' (sent @ take (nat (rv r)) chunk)"
    "p' = p\<lparr>input_offset := i\<rparr>"
  shows "tracks e s0 p' t"
proof -
  obtain k where k: "emits s (replicate k (Write (stdin_w e) chunk, Fail EINTR) @ [(Write (stdin_w e) chunk, r)]) t"
    using retry_Some [OF assms(4)] by blast
  show ?thesis by (rule tracks_extend [OF assms(1) k])
    (use assms(2,3,5,6) in \<open>simp add: agrees_def distinct_fds_def\<close>)
qed

definition next_chunk :: "run_env \<Rightarrow> runner \<Rightarrow> bytes" where
  "next_chunk e p = take (min (unat (word_of_nat (length (run_input e)) - input_offset p)) IO_BUFFER_SIZE)
     (drop (unat (input_offset p)) (run_input e))"

lemma take_within: "n \<le> length (take m xs) \<Longrightarrow> take n (take m xs) = take n xs"
  by (simp add: min_absorb1)

lemma next_chunk_sent:
  assumes "length (run_input e) < 2 ^ 63" "stdin_open p" "0 \<le> n" "n \<le> int (length (next_chunk e p))"
    "input_sent e p sent"
  shows "sent @ take (nat n) (next_chunk e p) = take (unat (input_offset p) + nat n) (run_input e)"
    "unat (input_offset p + word_of_int n) = unat (input_offset p) + nat n"
    "unat (input_offset p) + nat n \<le> length (run_input e)"
proof -
  define off len where "off = unat (input_offset p)" and "len = length (run_input e)"
  have s: "off < len" "sent = take off (run_input e)"
    using assms(2,5) by (auto simp: input_sent_def off_def len_def)
  have l64: "len < 2 ^ 64" using assms(1) by (simp add: len_def)
  have n: "nat n \<le> len - off" "nat n \<le> length (next_chunk e p)"
    using assms(4) s by (auto simp: next_chunk_def off_def len_def)
  have "take (nat n) (next_chunk e p) = take (nat n) (drop off (run_input e))"
    using take_within [OF n(2) [unfolded next_chunk_def]] by (simp only: next_chunk_def off_def)
  then show "sent @ take (nat n) (next_chunk e p) = take (unat (input_offset p) + nat n) (run_input e)"
    using s by (simp add: take_add off_def)
  show "unat (input_offset p) + nat n \<le> length (run_input e)" using n(1) s(1) by (simp add: off_def len_def)
  then have "off + nat n < 2 ^ 64" using l64 by (simp add: off_def len_def)
  moreover have "word_of_int n = (word_of_nat (nat n) :: u64)" using assms(3) by (simp add: of_nat_nat)
  ultimately show "unat (input_offset p + word_of_int n) = unat (input_offset p) + nat n"
    unfolding off_def by (simp add: unat_word_ariths unsigned_of_nat take_bit_nat_eq_self)
qed


text \<open>The word comparison that decides when the input has been sent.\<close>

lemma offset_at_end:
  assumes "length (run_input e) < 2 ^ 63"
  shows "i = (word_of_nat (length (run_input e)) :: u64) \<longleftrightarrow> unat i = length (run_input e)"
proof -
  have "unat (word_of_nat (length (run_input e)) :: u64) = length (run_input e)"
    using assms by (simp add: unsigned_of_nat take_bit_nat_eq_self)
  then show ?thesis by (metis word_unat_eq_iff)
qed

lemma tracks_closed_offset: "\<not> stdin_open p \<Longrightarrow> tracks e s0 (p\<lparr>input_offset := i\<rparr>) s = tracks e s0 p s"
  by (simp add: tracks_def agrees_def input_sent_def)

lemma run_inv_written:
  assumes f: "fit K e res0" and i: "run_inv e res0 s0 p s" and o: "stdin_open p"
    and w: "retry K (Write (stdin_w e) (next_chunk e p)) s = Some (r, t)" and n: "rv r \<noteq> - 1"
  defines "p' \<equiv> p\<lparr>input_offset := input_offset p + word_of_int (rv r)\<rparr>"
  shows "if input_offset p' = word_of_nat (length (run_input e))
    then run_inv e res0 s0 (fst (close_stdin K e p' t)) (snd (close_stdin K e p' t)) else run_inv e res0 s0 p' t"
proof -
  have d: "distinct_fds e" "length (run_input e) < 2 ^ 63" "honest K" using f by (simp_all add: fit_def)
  have rv: "0 \<le> rv r" "rv r \<le> int (length (next_chunk e p))"
    using n honest_write [OF d(3) w] by (cases r; simp)+
  note sent = next_chunk_sent [OF d(2) o rv]
  have only: "only (deaf e) s t" by (rule retry_only [OF w]) (rule deaf_io [OF d(1)])
  have talks: "talks e res0 s0 p' t" using i talks_deaf [OF _ only] by (simp add: p'_def run_inv_def talks_update)
  have flags: "flags_ok e p'" using i by (simp add: p'_def run_inv_def flags_update)
  have tr: "tracks e s0 p s" using i by (simp add: run_inv_def)
  show ?thesis
  proof (cases "input_offset p' = word_of_nat (length (run_input e))")
    case False
    then have "unat (input_offset p') \<noteq> length (run_input e)" by (simp add: offset_at_end [OF d(2)])
    then have "input_sent e p' (x @ take (nat (rv r)) (next_chunk e p))" if "input_sent e p x" for x
      using sent [OF that] o by (simp add: input_sent_def p'_def)
    from tracks_write [OF tr d(1) o w this p'_def [THEN meta_eq_to_obj_eq]] talks flags False show ?thesis
      by (simp add: run_inv_def)
  next
    case True
    define q where "q = fst (close_stdin K e p' t)"
    obtain k where k: "emits s (replicate k (Write (stdin_w e) (next_chunk e p), Fail EINTR) @ [(Write (stdin_w e) (next_chunk e p), r)]) t"
      using retry_Some [OF w] by blast
    have c: "emits t [(Close (stdin_w e), fst (K (Close (stdin_w e)) (world t)))] (snd (close_stdin K e p' t))"
      by (simp add: close_stdin_def emits_def)
    have "prefix (x @ take (nat (rv r)) (next_chunk e p)) (run_input e)" if "input_sent e p x" for x
      using sent(1) [OF that] by (simp add: take_is_prefix)
    then have "tracks e s0 q (snd (close_stdin K e p' t))"
      unfolding q_def
      by (intro tracks_extend [OF tr emits_trans [OF k c]])
         (use d(1) o in \<open>auto simp: agrees_def distinct_fds_def close_stdin_def p'_def input_sent_def\<close>)
    moreover have "talks e res0 s0 q (snd (close_stdin K e p' t))"
      unfolding q_def by (rule talks_close(1) [OF talks prod.collapse [symmetric]])
    moreover have "flags_ok e q" unfolding q_def by (rule flags_close(1) [OF flags prod.collapse [symmetric]])
    ultimately show ?thesis using True by (simp add: run_inv_def q_def)
  qed
qed

lemma sound_runner_stdin:
  assumes f: "fit K e res0" and i: "run_inv e res0 s0 p s"
  shows "sound_step e res0 s0 (runner_stdin K e ready p s)"
proof -
  have d: "distinct_fds e" "length (run_input e) < 2 ^ 63" using f by (simp_all add: fit_def)
  let ?hup = "stdin_open p \<and> has_flag (revents ready 0) (POLLHUP OR POLLERR)"
  let ?out = "stdin_open p \<and> has_flag (revents ready 0) POLLOUT"
  consider "?hup" | "\<not> ?hup" "?out" | "\<not> ?hup" "\<not> ?out" by blast
  then show ?thesis
  proof cases
    case 1
    then show ?thesis
      using run_inv_close(1) [OF i d(1)] by (auto simp: runner_stdin_def intro!: sound_Inr split: prod.splits)
  next
    case 3
    then show ?thesis by (auto simp: runner_stdin_def sound_Inr [OF i])
  next
    case 2
    then have o: "stdin_open p" by simp
    let ?size = "word_of_nat (length (run_input e)) :: u64"
    define tail where "tail = (\<lambda>(r, s). if rv r = - 1 \<and> errno s \<noteq> EPIPE then give_up_classified K e p s
        else case (if rv r = - 1 then close_stdin K e p s else (p, s)) of (p, s) \<Rightarrow>
          let p = p\<lparr>input_offset := input_offset p + word_of_int (rv r)\<rparr> in
          case (if input_offset p = ?size then close_stdin K e p s else (p, s)) of (p, s) \<Rightarrow> Some (Inr p, s))"
    have eq: "runner_stdin K e ready p s = Option.bind (retry K (Write (stdin_w e) (next_chunk e p)) s) tail"
      unfolding runner_stdin_def next_chunk_def tail_def Let_def using 2 by simp
    have "sound_step e res0 s0 (tail (r, t))"
      if w: "retry K (Write (stdin_w e) (next_chunk e p)) s = Some (r, t)" for r t
    proof (cases "rv r = - 1")
      case False
      with run_inv_written [OF f i o w] show ?thesis
        by (auto simp: tail_def Let_def sound_step_def split: prod.splits if_splits)
    next
      case True
      have io: "only (deaf e) s t" by (rule retry_only [OF w]) (rule deaf_io [OF d(1)])
      have off: "unat (input_offset p) < length (run_input e)"
        using i o by (auto simp: run_inv_def tracks_def agrees_def input_sent_def)
      have "tracks e s0 p t"
        by (rule tracks_write [OF _ d(1) o w, where i = "input_offset p"]) (use i True in \<open>auto simp: run_inv_def\<close>)
      with i talks_deaf [OF _ io] have inv: "run_inv e res0 s0 p t" by (simp add: run_inv_def)
      obtain q t' where q: "close_stdin K e p t = (q, t')" by fastforce
      note iq = run_inv_close(1) [OF inv d(1) o q]
      have "input_offset p - 1 \<noteq> ?size"
      proof
        assume "input_offset p - 1 = ?size"
        then have "unat (input_offset p - 1) = length (run_input e)" by (simp add: offset_at_end [OF d(2)])
        moreover have "unat (input_offset p - 1) = unat (input_offset p) - 1" if "input_offset p \<noteq> 0"
          using that by (simp add: unat_minus_one)
        moreover have "unat (input_offset p - 1) = 2 ^ 64 - 1" if "input_offset p = 0"
          using that by (simp add: unsigned_minus_1_eq_mask mask_eq_exp_minus_1)
        ultimately show False using off d(2) by (cases "input_offset p = 0") auto
      qed
      moreover have "\<not> stdin_open q" "input_offset q = input_offset p" using q by (auto simp: close_stdin_def)
      moreover have "sound_step e res0 s0 (tail (r, t))" if "errno t \<noteq> EPIPE"
        using that True by (simp add: tail_def sound_give_up)
      ultimately show ?thesis using True q iq
        by (cases "errno t = EPIPE")
           (auto simp: tail_def Let_def sound_step_def run_inv_def tracks_closed_offset talks_update flags_update)
    qed
    then show ?thesis unfolding eq by (intro sound_bind) auto
  qed
qed

lemma sound_runner_round:
  assumes f: "fit K e res0" and i: "run_inv e res0 s0 p s"
  shows "sound_step e res0 s0 (runner_round K e p s)"
proof -
  obtain now s1 where now: "sys K Clock s = (now, s1)" by fastforce
  have i1: "run_inv e res0 s0 p s1" by (rule run_inv_quiet_deaf [OF i]) (rule only_sys [OF _ now], simp)
  have body: "sound_step e res0 s0 (and_then (and_then (and_then (runner_control K e ready q u)
      (runner_stdin K e ready)) (runner_stdout K e ready)) (runner_stderr K e ready))"
    if "run_inv e res0 s0 q u" for ready q u
    using that f by (intro sound_and_then sound_runner_control sound_runner_stdin sound_runner_stdout sound_runner_stderr)
  have "sound_step e res0 s0 (if all_closed q then Some (Inr q, t)
        else do {
          (ready, s) \<leftarrow> retry K (Poll (zip (poll_fds q) [POLLOUT, POLLIN, POLLIN, POLLIN]) (poll_timeout e (rv now) q)) t;
          if rv ready = - 1 then give_up_classified K e q s
          else and_then (and_then (and_then (runner_control K e ready q s)
            (runner_stdin K e ready)) (runner_stdout K e ready)) (runner_stderr K e ready)
        })" if q: "run_inv e res0 s0 q t" for q t
  proof -
    have "run_inv e res0 s0 q u" if "retry K (Poll fds n) t = Some (r, u)" for fds n r u
      by (rule run_inv_quiet_deaf [OF q]) (rule retry_only [OF that], simp)
    with q body show ?thesis by (auto intro!: sound_Inr sound_bind sound_give_up)
  qed
  then show ?thesis unfolding runner_round_def
    by (simp only: now prod.case) (intro sound_and_then sound_enforce_deadline [OF f i1])
qed

text \<open>
  Reasoning about the loop: what every round that goes on keeps, the loop keeps; it is left with everything closed, or
  from a round that returned.
\<close>

lemma runner_loop_rule:
  assumes "runner_loop K e p s = Some (x, s')" "I p s"
    "\<And>p s q t. I p s \<Longrightarrow> \<not> all_closed p \<Longrightarrow> runner_round K e p s = Some (Inr q, t) \<Longrightarrow> I q t"
  shows "case x of
      Inl res \<Rightarrow> \<exists>p s. I p s \<and> \<not> all_closed p \<and> runner_round K e p s = Some (Inl res, s')
    | Inr q \<Rightarrow> I q s' \<and> all_closed q"
proof -
  define P where "P = (\<lambda>(K' :: 'a kernel) e' p (s :: 'a proc) (y :: (ExecutionResult + runner) \<times> 'a proc).
     K' = K \<longrightarrow> e' = e \<longrightarrow> I p s \<longrightarrow> (case fst y of
        Inl res \<Rightarrow> \<exists>p s. I p s \<and> \<not> all_closed p \<and> runner_round K e p s = Some (Inl res, snd y)
      | Inr q \<Rightarrow> I q (snd y) \<and> all_closed q))"
  have "P K e p s (x, s')"
  proof (rule runner_loop.raw_induct [where P = P, OF _ assms(1)])
    fix f :: "'a kernel \<Rightarrow> run_env \<Rightarrow> runner \<Rightarrow> 'a proc \<Rightarrow> 'a run_step" and K' e' p s y
    assume IH: "\<And>K e p s y. f K e p s = Some y \<Longrightarrow> P K e p s y"
      and eq: "(if all_closed p then Some (Inr p, s)
        else do {
          (x, s) \<leftarrow> runner_round K' e' p s;
          case x of Inl res \<Rightarrow> Some (Inl res, s) | Inr p \<Rightarrow> f K' e' p s
        }) = Some y"
    show "P K' e' p s y"
    proof (cases "all_closed p")
      case True
      with eq show ?thesis by (auto simp: P_def)
    next
      case False
      with eq obtain z t where z: "runner_round K' e' p s = Some (z, t)"
        "(case z of Inl res \<Rightarrow> Some (Inl res, t) | Inr p \<Rightarrow> f K' e' p t) = Some y" by (auto elim!: bind_SomeE)
      show ?thesis
      proof (cases z)
        case (Inl res)
        with z False show ?thesis unfolding P_def by (auto intro!: exI [of _ p] exI [of _ s])
      next
        case (Inr q)
        with z False assms(3) [of p s q t] IH [of K' e' q t y] show ?thesis unfolding P_def by auto
      qed
    qed
  qed
  with assms(2) show ?thesis by (cases x) (simp_all add: P_def)
qed

text \<open>The loop: it ends with the invariant and everything closed, or with a failure.\<close>

lemma runner_loop_sound:
  assumes "fit K e res0" "run_inv e res0 s0 p s" "runner_loop K e p s = Some (x, s')"
  shows "case x of Inl res \<Rightarrow> failure res | Inr p' \<Rightarrow> run_inv e res0 s0 p' s' \<and> all_closed p'"
proof -
  note sound = sound_runner_round [OF assms(1), of s0]
  from assms(3,2) have loop: "case x of
      Inl res \<Rightarrow> \<exists>p s. run_inv e res0 s0 p s \<and> \<not> all_closed p \<and> runner_round K e p s = Some (Inl res, s')
    | Inr q \<Rightarrow> run_inv e res0 s0 q s' \<and> all_closed q"
    by (rule runner_loop_rule) (use sound in \<open>fastforce simp: sound_step_def\<close>)
  have "failure res" if "run_inv e res0 s0 p s" "runner_round K e p s = Some (Inl res, t)" for p s res t
    using sound [OF that(1)] that(2) by (simp add: sound_step_def)
  with loop show ?thesis by (cases x) auto
qed

section \<open>What a run that did not fail has done\<close>

lemma initial_inv:
  assumes "\<not> wall_time_limit_exceeded res0" "distinct_fds e"
  shows "if length (run_input e) = 0
    then run_inv e res0 s (fst (close_stdin K e (initial_runner e res0) s)) (snd (close_stdin K e (initial_runner e res0) s))
    else run_inv e res0 s (initial_runner e res0) s"
proof -
  have c: "emits s [(Close (stdin_w e), fst (K (Close (stdin_w e)) (world s)))] (do_sys K (Close (stdin_w e)) s)"
    by (simp add: emits_def)
  have r: "res0\<lparr>wall_time_limit_exceeded := False\<rparr> = res0" using assms by (cases res0) simp
  have "tracks e s (initial_runner e res0) s" if "length (run_input e) \<noteq> 0"
    using that by (auto simp: tracks_def agrees_def input_sent_def initial_runner_def intro!: exI [of _ "[]"])
  moreover have t: "talks e res0 s (initial_runner e res0) s"
    using r by (auto simp: talks_def converses_def initial_runner_def intro!: exI [of _ "[]"])
  moreover have f: "flags_ok e (initial_runner e res0)"
    by (simp add: flags_ok_def initial_runner_def poll_entry_def)
  moreover have "tracks e s (fst (close_stdin K e (initial_runner e res0) s)) (snd (close_stdin K e (initial_runner e res0) s))"
    if "length (run_input e) = 0"
    unfolding tracks_def
    by (rule exI, rule conjI, simp add: close_stdin_def, rule c)
       (use that assms(2) in \<open>auto simp: agrees_def input_sent_def initial_runner_def close_stdin_def distinct_fds_def\<close>)
  moreover have "talks e res0 s (fst (close_stdin K e (initial_runner e res0) s)) (snd (close_stdin K e (initial_runner e res0) s))"
    by (rule talks_close(1) [OF t prod.collapse [symmetric]])
  moreover have "flags_ok e (fst (close_stdin K e (initial_runner e res0) s))"
    by (rule flags_close(1) [OF f prod.collapse [symmetric]])
  ultimately show ?thesis by (simp add: run_inv_def)
qed

lemma supervise_io_core:
  assumes f: "fit K e res0" and w: "\<not> wall_time_limit_exceeded res0"
    and run: "supervise_io K e res0 s = Some (res, s')" and ok: "\<not> failure res"
  shows "\<exists>a b c new p. emits s ([(Close (snd (stdout_pipe (run_fds e))), a), (Close (snd (stderr_pipe (run_fds e))), b),
      (Close (fst (stdin_pipe (run_fds e))), c)] @ new) s' \<and>
    agrees e p new \<and> converses e res0 p new \<and> flags_ok e p \<and> all_closed p \<and> res = classify p"
proof -
  obtain a s1 where a: "sys K (Close (snd (stdout_pipe (run_fds e)))) s = (a, s1)" by fastforce
  obtain b s2 where b: "sys K (Close (snd (stderr_pipe (run_fds e)))) s1 = (b, s2)" by fastforce
  obtain c s3 where c: "sys K (Close (fst (stdin_pipe (run_fds e)))) s2 = (c, s3)" by fastforce
  have pre: "do_sys K (Close (fst (stdin_pipe (run_fds e)))) (do_sys K (Close (snd (stderr_pipe (run_fds e))))
      (do_sys K (Close (snd (stdout_pipe (run_fds e)))) s)) = s3"
    using a b c by (simp add: do_sys_def)
  obtain p t where p: "(if length (run_input e) = 0 then close_stdin K e (initial_runner e res0) s3
      else (initial_runner e res0, s3)) = (p, t)" by fastforce
  have i: "run_inv e res0 s3 p t"
    using initial_inv [OF w, of e s3 K] f p by (auto simp: fit_def split: if_splits)
  from run obtain x s4 where l: "runner_loop K e p t = Some (x, s4)"
    "(case x of Inl res \<Rightarrow> Some (res, s4) | Inr p \<Rightarrow> conclude K e p s4) = Some (res, s')"
    unfolding supervise_io_def Let_def pre p prod.case by (auto elim!: bind_SomeE)
  note sound = runner_loop_sound [OF f i l(1)]
  with l(2) ok obtain q where q: "x = Inr q" "run_inv e res0 s3 q s4" "all_closed q" by (cases x) auto
  then have "supervisor_reaped q" by (auto simp: run_inv_def flags_ok_def all_closed_def)
  with l(2) q(1) have res: "res = classify q" "s' = s4" by (auto simp: conclude_def)
  from q(2) obtain n1 n2 where n: "emits s3 n1 s4" "agrees e q n1" "emits s3 n2 s4" "converses e res0 q n2" "flags_ok e q"
    unfolding run_inv_def tracks_def talks_def by blast
  then have "n2 = n1" by (simp add: emits_def)
  moreover have "emits s ([(Close (snd (stdout_pipe (run_fds e))), a), (Close (snd (stderr_pipe (run_fds e))), b),
      (Close (fst (stdin_pipe (run_fds e))), c)] @ n1) s4"
    using emits_trans [OF emits_sys [OF a] emits_trans [OF emits_sys [OF b] emits_trans [OF emits_sys [OF c] n(1)]]] by simp
  ultimately show ?thesis using n q(3) res by blast
qed

lemma receive_message_only: "receive_message K fd n s = Some (x, s') \<Longrightarrow> only (reads_from fd) s s'"
  unfolding receive_message_def Let_def
  by (auto elim!: bind_SomeE split: if_splits dest!: read_all_only intro: only_trans)

text \<open>From the fork to the return, in a run that does not end in a failure.\<close>

definition all_distinct :: "pipes \<Rightarrow> bool" where
  "all_distinct fds \<longleftrightarrow> distinct [fst (control_socket fds), snd (control_socket fds), fst (stdin_pipe fds),
     snd (stdin_pipe fds), fst (stdout_pipe fds), snd (stdout_pipe fds), fst (stderr_pipe fds), snd (stderr_pipe fds)]"

lemma run_parent_core:
  assumes f: "fit K e res0" and w: "\<not> wall_time_limit_exceeded res0"
    and run: "run_parent K e res0 s = Some (res, s')" and ok: "\<not> failure res"
  shows "\<exists>before new p. emits s (before @ new) s' \<and>
    (\<forall>x \<in> set before. reads_from (control_r e) (fst x) \<or> (\<exists>fd. fst x = Close fd)) \<and>
    (\<forall>fd. closes fd before = count_list [snd (control_socket (run_fds e)), snd (stdout_pipe (run_fds e)),
        snd (stderr_pipe (run_fds e)), fst (stdin_pipe (run_fds e))] fd) \<and>
    agrees e p new \<and> converses e res0 p new \<and> flags_ok e p \<and> all_closed p \<and> res = classify p"
proof -
  obtain d s1 where d: "sys K (Close (snd (control_socket (run_fds e)))) s = (d, s1)" by fastforce
  then have s1: "do_sys K (Close (snd (control_socket (run_fds e)))) s = s1" by (simp add: do_sys_def)
  from run obtain rc s2 where rc: "receive_message K (control_r e) sizeof_ready s1 = Some (rc, s2)"
    unfolding run_parent_def Let_def s1 by (auto elim!: bind_SomeE)
  obtain header pl where "rc = Some (header, pl)" "msg_type header = msg_code Ready"
    using run rc ok unfolding run_parent_def Let_def s1
    by (cases rc) (auto simp: failure_def elim!: bind_SomeE split: if_splits)
  with run rc have io: "supervise_io K e res0 s2 = Some (res, s')"
    unfolding run_parent_def Let_def s1 by simp
  obtain rd where rd: "emits s1 rd s2" "\<forall>x \<in> set rd. reads_from (control_r e) (fst x)"
    using receive_message_only [OF rc] unfolding only_def by blast
  obtain a b c new p where core: "emits s2 ([(Close (snd (stdout_pipe (run_fds e))), a),
      (Close (snd (stderr_pipe (run_fds e))), b), (Close (fst (stdin_pipe (run_fds e))), c)] @ new) s'"
    "agrees e p new" "converses e res0 p new" "flags_ok e p" "all_closed p" "res = classify p"
    using supervise_io_core [OF f w io ok] by blast
  define before where "before = (Close (snd (control_socket (run_fds e))), d) # rd @
    [(Close (snd (stdout_pipe (run_fds e))), a), (Close (snd (stderr_pipe (run_fds e))), b),
      (Close (fst (stdin_pipe (run_fds e))), c)]"
  have "closes fd rd = 0" for fd
    using rd(2) by (auto simp: closes_def reads_from_def filter_empty_conv split: syscall.splits)
  then have "closes fd before = count_list [snd (control_socket (run_fds e)), snd (stdout_pipe (run_fds e)),
        snd (stderr_pipe (run_fds e)), fst (stdin_pipe (run_fds e))] fd" for fd
    by (simp add: before_def)
  moreover have "\<forall>x \<in> set before. reads_from (control_r e) (fst x) \<or> (\<exists>fd. fst x = Close fd)"
    using rd(2) by (auto simp: before_def)
  moreover have "emits s (before @ new) s'"
    using emits_trans [OF emits_sys [OF d] emits_trans [OF rd(1) core(1)]] by (simp add: before_def)
  ultimately show ?thesis using core by blast
qed

lemma fresh_result_simps [simp]:
  "status fresh_result = RunnerFailure" "\<not> wall_time_limit_exceeded fresh_result"
  "\<not> terminated_by_signal fresh_result" "exit_code fresh_result = 1" "signal_number fresh_result = 0"
  by (simp_all add: fresh_result_def default_ExecutionResult_def)

text \<open>The environment of a run: what the kernel and the caller provide.\<close>

definition well_connected :: "'w kernel \<Rightarrow> run_env \<Rightarrow> bool" where
  "well_connected K e \<longleftrightarrow> honest K \<and> all_distinct (run_fds e) \<and> length (run_input e) < 2 ^ 63"

lemma well_connected_fit: "well_connected K e \<Longrightarrow> fit K e fresh_result"
  by (auto simp: well_connected_def fit_def all_distinct_def distinct_fds_def)

lemma classify_fields [simp]:
  "stdout_output (classify p) = stdout_read p" "stderr_output (classify p) = stderr_read p"
  "exit_code (classify p) = exit_code (run_result p)"
  "terminated_by_signal (classify p) = terminated_by_signal (run_result p)"
  "signal_number (classify p) = signal_number (run_result p)"
  "wall_time_limit_exceeded (classify p) = wall_time_limit_exceeded (run_result p)"
  "cpu_time (classify p) = cpu_time (run_result p)"
  "memory_usage_bytes (classify p) = memory_usage_bytes (run_result p)"
  by (simp_all add: classify_def Let_def)

lemma before_silent:
  assumes "\<forall>x \<in> set before. reads_from (control_r e) (fst x) \<or> (\<exists>fd. fst x = Close fd)" "distinct_fds e"
  shows "put_on fd before = []" "got_from (stdout_r e) before = []" "got_from (stderr_r e) before = []"
proof -
  have "\<forall>x \<in> set before. \<not> writes_to fd (fst x)" "\<forall>x \<in> set before. \<not> reads_from (stdout_r e) (fst x)"
    "\<forall>x \<in> set before. \<not> reads_from (stderr_r e) (fst x)"
    using assms by (auto simp: io_iff distinct_fds_def dest!: bspec)
  then show "put_on fd before = []" "got_from (stdout_r e) before = []" "got_from (stderr_r e) before = []"
    by (simp_all add: put_on_none got_from_none)
qed

text \<open>
  C6. The streams of a run. When \<open>ProcessRunner::run\<close> returns in the caller without a runner or sandbox
  failure, its result holds exactly the bytes the runner read from the submission's standard output and standard
  error, in order, and what was written to the submission's standard input is a prefix of the input.
\<close>

theorem run_streams_faithful:
  assumes "well_connected K e" "run_parent K e fresh_result s = Some (res, s')"
    "status res \<notin> {RunnerFailure, SandboxFailure}"
  shows "\<exists>new. emits s new s' \<and> stdout_output res = got_from (stdout_r e) new \<and>
    stderr_output res = got_from (stderr_r e) new \<and> prefix (put_on (stdin_w e) new) (run_input e)"
proof -
  note f = well_connected_fit [OF assms(1)]
  from run_parent_core [OF f _ assms(2)] assms(3) obtain before new p where
    c: "emits s (before @ new) s'" "\<forall>x \<in> set before. reads_from (control_r e) (fst x) \<or> (\<exists>fd. fst x = Close fd)"
    "agrees e p new" "res = classify p" by (auto simp: failure_def)
  have "distinct_fds e" using f by (simp add: fit_def)
  note silent = before_silent [OF c(2) this]
  have "prefix (put_on (stdin_w e) new) (run_input e)"
    using c(3) input_sent_prefix unfolding agrees_def by blast
  with c silent show ?thesis by (intro exI [of _ "before @ new"]) (simp add: agrees_def)
qed

text \<open>
  C13. Descriptors. In the same case every end of the three pipes and of the control socket has been closed by
  the runner exactly once: none leaks, none is closed twice.
\<close>

theorem run_closes_descriptors_once:
  assumes "well_connected K e" "run_parent K e fresh_result s = Some (res, s')"
    "status res \<notin> {RunnerFailure, SandboxFailure}"
  shows "\<exists>new. emits s new s' \<and>
    (\<forall>p \<in> {control_socket (run_fds e), stdin_pipe (run_fds e), stdout_pipe (run_fds e), stderr_pipe (run_fds e)}.
       closes (fst p) new = 1 \<and> closes (snd p) new = 1)"
proof -
  note f = well_connected_fit [OF assms(1)]
  from run_parent_core [OF f _ assms(2)] assms(3) obtain before new p where
    c: "emits s (before @ new) s'"
    "\<And>fd. closes fd before = count_list [snd (control_socket (run_fds e)), snd (stdout_pipe (run_fds e)),
        snd (stderr_pipe (run_fds e)), fst (stdin_pipe (run_fds e))] fd"
    "agrees e p new" "flags_ok e p" "all_closed p" by (auto simp: failure_def)
  have "closes fd (before @ new) = 1" if "fd \<in> {fst (control_socket (run_fds e)), snd (control_socket (run_fds e)),
      fst (stdin_pipe (run_fds e)), snd (stdin_pipe (run_fds e)), fst (stdout_pipe (run_fds e)),
      snd (stdout_pipe (run_fds e)), fst (stderr_pipe (run_fds e)), snd (stderr_pipe (run_fds e))}" for fd
    using that c(2-5) assms(1) by (auto simp: agrees_def flags_ok_def all_closed_def well_connected_def all_distinct_def)
  with c(1) show ?thesis by blast
qed

text \<open>
  C7. The report of a run. In the same case the runner received exactly one \<open>Terminated\<close> message after
  \<open>Ready\<close> and reaped the supervisor; exit code, signal, CPU time and memory of the result are those of the
  message's wait status and usage. The wall-clock flag is up exactly if \<open>Terminate\<close> was sent, once; the result is
  \<open>TimedOut\<close> with the flag, else \<open>Signaled\<close> for a signalled submission, else \<open>Completed\<close>.
\<close>

theorem run_reports_termination:
  assumes "well_connected K e" "run_parent K e fresh_result s = Some (res, s')"
    "status res \<notin> {RunnerFailure, SandboxFailure}"
  shows "\<exists>new first hdr bs. emits s new s' \<and> got_from (control_r e) new = first @ hdr @ bs \<and>
    dec_header hdr = \<lparr>msg_type = msg_code Terminated, payload_size = word_of_nat sizeof_terminated\<rparr> \<and>
    length hdr = sizeof_header \<and> length bs = sizeof_terminated \<and>
    (\<exists>r. (Waitpid (supervisor_pid e) Blocking, r) \<in> set new \<and> rv r = supervisor_pid e) \<and>
    put_on (control_r e) new = (if wall_time_limit_exceeded res then terminate_bytes else []) \<and>
    (let t = dec_terminated bs; st = wait_status t in
      exit_code res = (if WIFEXITED st then uint (WEXITSTATUS st) else 1) \<and>
      terminated_by_signal res = WIFSIGNALED st \<and>
      signal_number res = (if WIFSIGNALED st then uint (WTERMSIG st) else 0) \<and>
      cpu_time res = to_microseconds (ru_utime (usage t)) + to_microseconds (ru_stime (usage t)) \<and>
      memory_usage_bytes res = ru_maxrss (usage t) * 1024 \<and>
      status res = (if wall_time_limit_exceeded res then ExecutionStatus.TimedOut
        else if WIFSIGNALED st then ExecutionStatus.Signaled else Completed))"
proof -
  note f = well_connected_fit [OF assms(1)]
  from run_parent_core [OF f _ assms(2)] assms(3) obtain before new p where
    c: "emits s (before @ new) s'" "\<forall>x \<in> set before. reads_from (control_r e) (fst x) \<or> (\<exists>fd. fst x = Close fd)"
    "converses e fresh_result p new" "all_closed p" "res = classify p" by (auto simp: failure_def)
  then have told: "told e fresh_result p new"
    and put: "put_on (control_r e) new = (if termination_requested p then terminate_bytes else [])"
    by (auto simp: converses_def all_closed_def)
  have "distinct_fds e" using f by (simp add: fit_def)
  then have silent: "put_on (control_r e) before = []" by (rule before_silent [OF c(2)])
  from told obtain hdr bs elapsed r where t: "got_from (control_r e) new = hdr @ bs"
     "length hdr = sizeof_header" "length bs = sizeof_terminated"
     "dec_header hdr = \<lparr>msg_type = msg_code Terminated, payload_size = word_of_nat sizeof_terminated\<rparr>"
     "run_status p = wait_status (dec_terminated bs)"
     "run_result p = reported_result fresh_result (termination_requested p) elapsed (dec_terminated bs)"
     "(Waitpid (supervisor_pid e) Blocking, r) \<in> set new" "rv r = supervisor_pid e"
    unfolding told_def by blast
  have wall: "wall_time_limit_exceeded res = termination_requested p"
    using c(5) t(6) by (simp add: reported_result_def Let_def)
  have ex: "WIFSIGNALED st \<Longrightarrow> \<not> WIFEXITED st" for st
    by (simp add: WIFSIGNALED_iff WIFEXITED_def)
  let ?t = "dec_terminated bs" let ?st = "wait_status ?t"
  have fields: "exit_code res = (if WIFEXITED ?st then uint (WEXITSTATUS ?st) else 1)"
    "terminated_by_signal res = WIFSIGNALED ?st"
    "signal_number res = (if WIFSIGNALED ?st then uint (WTERMSIG ?st) else 0)"
    "cpu_time res = to_microseconds (ru_utime (usage ?t)) + to_microseconds (ru_stime (usage ?t))"
    "memory_usage_bytes res = ru_maxrss (usage ?t) * 1024"
    using c(5) t(6) ex [of ?st] by (auto simp: reported_result_def Let_def)
  have stat: "status res = (if wall_time_limit_exceeded res then ExecutionStatus.TimedOut
        else if WIFSIGNALED ?st then ExecutionStatus.Signaled else Completed)"
    using c(5) t(5) by (simp add: classify_def Let_def)
  have "put_on (control_r e) (before @ new) = (if wall_time_limit_exceeded res then terminate_bytes else [])"
    using silent put wall by simp
  moreover have "got_from (control_r e) (before @ new) = got_from (control_r e) before @ hdr @ bs" using t(1) by simp
  moreover have "\<exists>r. (Waitpid (supervisor_pid e) Blocking, r) \<in> set (before @ new) \<and> rv r = supervisor_pid e"
    using t(7,8) by auto
  ultimately show ?thesis unfolding Let_def
    by (intro exI [of _ "before @ new"] exI [of _ "got_from (control_r e) before"] exI [of _ hdr] exI [of _ bs]
      conjI c(1) t(2,3,4) fields stat)
qed

section \<open>A concrete run\<close>

text \<open>
  A kernel whose state is what the control socket and the submission's standard output still hold: it delivers the
  output first, then the supervisor's messages, and grants every other request.
\<close>

fun demo_kernel :: "(bytes \<times> bytes) kernel" where
  "demo_kernel (Write fd bs) w = (Ret (length bs), w)"
| "demo_kernel (Read fd n) (c, out) =
     (if fd = 3 then (Data (take n c), (drop n c, out))
      else if fd = 7 then (Data (take n out), (c, drop n out)) else (Data [], (c, out)))"
| "demo_kernel (Poll fds t) (c, out) = (Events 1 (if out \<noteq> [] then [0, 1, 0, 0] else [0, 0, 0, 1]), (c, out))"
| "demo_kernel (Waitpid pid m) w = (Waited (nat pid) 0 zero_rusage, w)"
| "demo_kernel _ w = (Ret 0, w)"

definition demo_env :: run_env where
  "demo_env = \<lparr>run_fds = \<lparr>control_socket = (3, 4), stdin_pipe = (5, 6), stdout_pipe = (7, 8), stderr_pipe = (9, 10)\<rparr>,
     supervisor_pid = 100, run_execution_id = 1, start_time = 0, deadline = 1000000, run_input = [65]\<rparr>"

definition demo_message :: bytes where
  "demo_message = enc_header \<lparr>msg_type = msg_code Ready, payload_size = 16\<rparr>
     @ enc_ready \<lparr>ready_host_pid = 101, ready_namespace_pid = 1, ready_execution_id = 0\<rparr>
     @ enc_header \<lparr>msg_type = msg_code Terminated, payload_size = 152\<rparr>
     @ enc_terminated \<lparr>wait_status = 0, usage = zero_rusage\<rparr>"

lemma demo_honest: "honest demo_kernel"
  unfolding honest_def by auto

lemma demo_well_connected: "well_connected demo_kernel demo_env"
  by (simp add: well_connected_def demo_honest demo_env_def all_distinct_def)

lemma demo_lengths [simp]: "length (enc_header h) = 8" "length (enc_ready r) = 16"
  "length (enc_terminated \<lparr>wait_status = 0, usage = zero_rusage\<rparr>) = 152"
  by (simp_all add: enc_header_def enc_ready_def enc_terminated_def length_enc_rusage valid_rusage_def zero_rusage_def)

lemma demo_decodes [simp]: "dec_header (enc_header h) = h"
  "dec_terminated (enc_terminated \<lparr>wait_status = 0, usage = zero_rusage\<rparr>) = \<lparr>wait_status = 0, usage = zero_rusage\<rparr>"
  by (simp_all add: header_codec.dec_enc terminated_codec.dec_enc valid_rusage_def zero_rusage_def)


text \<open>Receiving \<open>Ready\<close>, one round that reads the output, one that receives \<open>Terminated\<close>.\<close>

definition demo_rest :: bytes where
  "demo_rest = enc_header \<lparr>msg_type = msg_code Terminated, payload_size = 152\<rparr>
     @ enc_terminated \<lparr>wait_status = 0, usage = zero_rusage\<rparr>"

lemma demo_ready:
  "world s = (demo_message, out) \<Longrightarrow> \<exists>s'. receive_message demo_kernel 3 16 s =
     Some (Some (\<lparr>msg_type = msg_code Ready, payload_size = 16\<rparr>,
       enc_ready \<lparr>ready_host_pid = 101, ready_namespace_pid = 1, ready_execution_id = 0\<rparr>), s') \<and>
     world s' = (demo_rest, out) \<and> got_from 3 (calls s') @ demo_rest = got_from 3 (calls s) @ demo_message"
  by (simp add: got_from_def demo_message_def demo_rest_def receive_message_def read_all_def read_loop_unfold sys_eval sizeof_header_def
    cong: demo_congs)

lemma demo_round_output:
  "world s = (demo_rest, [66]) \<Longrightarrow> \<exists>s'. runner_round demo_kernel demo_env (initial_runner demo_env fresh_result) s =
     Some (Inr ((initial_runner demo_env fresh_result)\<lparr>stdout_read := [66]\<rparr>), s') \<and> world s' = (demo_rest, []) \<and>
     got_from 3 (calls s') = got_from 3 (calls s)"
  by (simp add: got_from_def runner_round_def enforce_deadline_def demo_env_def initial_runner_def and_then_def all_closed_def sys_eval
    runner_control_def runner_stdin_def runner_stdout_def runner_stderr_def has_flag_def IO_BUFFER_SIZE_def cong: demo_congs)

lemma status_zero [simp]: "WIFEXITED 0" "\<not> WIFSIGNALED 0" "WEXITSTATUS 0 = 0"
  by (simp_all add: WIFEXITED_def WIFSIGNALED_iff WEXITSTATUS_def WTERMSIG_def)

lemma demo_round_terminated:
  assumes "world s = (demo_rest, [])"
  shows "\<exists>p s'. runner_round demo_kernel demo_env ((initial_runner demo_env fresh_result)\<lparr>stdout_read := [66]\<rparr>) s =
     Some (Inr p, s') \<and> all_closed p \<and> supervisor_reaped p \<and> run_status p = 0 \<and> stdout_read p = [66] \<and>
     exit_code (run_result p) = 0 \<and> \<not> wall_time_limit_exceeded (run_result p) \<and>
     got_from 3 (calls s') = got_from 3 (calls s) @ demo_rest"
  using assms
  by (simp add: got_from_def demo_rest_def runner_round_def enforce_deadline_def demo_env_def initial_runner_def and_then_def all_closed_def sys_eval
    runner_control_def runner_stdin_def runner_stdout_def runner_stderr_def has_flag_def handle_terminated_def
    finish_supervisor_terminal_def finalize_resource_usage_def finalize_status_def close_pipes_def when_open_def close_defs
    read_all_def read_loop_unfold sizeof_header_def sizeof_terminated_def cong: demo_congs)

lemma demo_run: "\<exists>res s'. run_parent demo_kernel demo_env fresh_result (boot (demo_message, [66])) = Some (res, s') \<and>
  status res = Completed \<and> exit_code res = 0 \<and> stdout_output res = [66] \<and> got_from 3 (calls s') = demo_message"
proof -
  let ?p = "initial_runner demo_env fresh_result"
  let ?s = "do_sys demo_kernel (Close 4) (boot (demo_message, [66]))"
  have w: "world ?s = (demo_message, [66])" by (simp add: sys_eval)
  obtain s1 where s1: "receive_message demo_kernel 3 16 ?s = Some (Some (\<lparr>msg_type = msg_code Ready, payload_size = 16\<rparr>,
       enc_ready \<lparr>ready_host_pid = 101, ready_namespace_pid = 1, ready_execution_id = 0\<rparr>), s1)"
     "world s1 = (demo_rest, [66])" "got_from 3 (calls s1) @ demo_rest = got_from 3 (calls ?s) @ demo_message"
    using demo_ready [OF w] by blast
  let ?s2 = "do_sys demo_kernel (Close 5) (do_sys demo_kernel (Close 10) (do_sys demo_kernel (Close 8) s1))"
  have "world ?s2 = (demo_rest, [66])" using s1(2) by (simp add: sys_eval)
  from demo_round_output [OF this] obtain s3 where s3: "runner_round demo_kernel demo_env ?p ?s2 =
     Some (Inr (?p\<lparr>stdout_read := [66]\<rparr>), s3)" "world s3 = (demo_rest, [])" "got_from 3 (calls s3) = got_from 3 (calls ?s2)"
    by blast
  from demo_round_terminated [OF s3(2)] obtain p s4 where
    s4: "runner_round demo_kernel demo_env (?p\<lparr>stdout_read := [66]\<rparr>) s3 = Some (Inr p, s4)" and p: "all_closed p"
     "supervisor_reaped p" "run_status p = 0" "stdout_read p = [66]" "exit_code (run_result p) = 0"
     "\<not> wall_time_limit_exceeded (run_result p)" "got_from 3 (calls s4) = got_from 3 (calls s3) @ demo_rest" by blast
  have open_p: "\<not> all_closed ?p" "\<not> all_closed (?p\<lparr>stdout_read := [66]\<rparr>)" by (simp_all add: all_closed_def initial_runner_def)
  have "runner_loop demo_kernel demo_env ?p ?s2 = Some (Inr p, s4)"
    using open_p p(1) s3(1) s4 by (simp add: runner_loop.simps [of _ _ ?p] runner_loop.simps [of _ _ "?p\<lparr>stdout_read := [66]\<rparr>"]
      runner_loop.simps [of _ _ p])
  then have "supervise_io demo_kernel demo_env fresh_result s1 = Some (classify p, s4)"
    using p(2) by (simp add: supervise_io_def conclude_def demo_env_def Let_def)
  then have "run_parent demo_kernel demo_env fresh_result (boot (demo_message, [66])) = Some (classify p, s4)"
    using s1(1) by (simp add: run_parent_def demo_env_def sizeof_ready_def Let_def)
  moreover have "status (classify p) = Completed" using p(3,6) by (simp add: classify_def)
  moreover have "got_from 3 (calls s4) = demo_message"
    using s1(3) s3(3) p(7) by (simp add: got_from_def boot_simps)
  ultimately show ?thesis using p(4,5) by simp
qed

lemma demo_not_failure: "status res = Completed \<Longrightarrow> status res \<notin> {RunnerFailure, SandboxFailure}"
  by simp

theorem run_streams_faithful_witness:
  "\<exists>res s' new. run_parent demo_kernel demo_env fresh_result (boot (demo_message, [66])) = Some (res, s') \<and>
     emits (boot (demo_message, [66])) new s' \<and> got_from 7 new = [66] \<and> prefix (put_on 6 new) [65]"
proof -
  obtain res s' where r: "run_parent demo_kernel demo_env fresh_result (boot (demo_message, [66])) = Some (res, s')"
    "status res = Completed" "stdout_output res = [66]" using demo_run by blast
  from run_streams_faithful [OF demo_well_connected r(1) demo_not_failure [OF r(2)]] r show ?thesis
    by (auto simp: demo_env_def)
qed

theorem run_closes_descriptors_once_witness:
  "\<exists>res s' new. run_parent demo_kernel demo_env fresh_result (boot (demo_message, [66])) = Some (res, s') \<and>
     emits (boot (demo_message, [66])) new s' \<and> closes 3 new = 1 \<and> closes 10 new = 1"
proof -
  obtain res s' where r: "run_parent demo_kernel demo_env fresh_result (boot (demo_message, [66])) = Some (res, s')"
    "status res = Completed" using demo_run by blast
  from run_closes_descriptors_once [OF demo_well_connected r(1) demo_not_failure [OF r(2)]] r show ?thesis
    by (auto simp: demo_env_def)
qed

theorem run_reports_termination_witness:
  "\<exists>res s' new bs. run_parent demo_kernel demo_env fresh_result (boot (demo_message, [66])) = Some (res, s') \<and>
     emits (boot (demo_message, [66])) new s' \<and> length bs = sizeof_terminated \<and>
     exit_code res = (if WIFEXITED (wait_status (dec_terminated bs))
       then uint (WEXITSTATUS (wait_status (dec_terminated bs))) else 1)"
proof -
  obtain res s' where r: "run_parent demo_kernel demo_env fresh_result (boot (demo_message, [66])) = Some (res, s')"
    "status res = Completed" using demo_run by blast
  from run_reports_termination [OF demo_well_connected r(1) demo_not_failure [OF r(2)]] r(1) show ?thesis
    unfolding Let_def by blast
qed

end
