(* ===== verification/Returning.thy ===== *)
theory Returning
  imports Sandbox_Protocol
begin

text \<open>
  Total correctness of programs over a patient kernel. A measure on the kernel's states bounds how often calls are
  interrupted; \<open>returns\<close> says that a program fragment returns without raising the measure, and the collection
  \<open>returns_intros\<close> proves it along the fragment's syntax. The transfer loops of the protocol are the first clients.
\<close>

text \<open>
  \<open>returns m n st x\<close>: the program fragment \<open>x\<close> returns, and the process it ends in (\<open>st\<close> of its value) has a
  kernel measure of at most \<open>n\<close>.
\<close>

definition below :: "('w \<Rightarrow> nat) \<Rightarrow> nat \<Rightarrow> 'w proc \<Rightarrow> bool" where
  "below m n s \<longleftrightarrow> m (world s) \<le> n"

definition returns :: "('w \<Rightarrow> nat) \<Rightarrow> nat \<Rightarrow> ('a \<Rightarrow> 'w proc) \<Rightarrow> 'a option \<Rightarrow> bool" where
  "returns m n st x \<longleftrightarrow> (\<exists>y. x = Some y \<and> below m n (st y))"

named_theorems returns_intros \<open>rules that show that a fragment returns, by its syntax\<close>

lemma returns_Some [returns_intros]:
  "below m n s \<Longrightarrow> returns m n snd (Some (a, s))"
  "below m n s \<Longrightarrow> returns m n (\<lambda>(a, b, s). s) (Some (a, b, s))"
  "below m n s \<Longrightarrow> returns m n (\<lambda>s. s) (Some s)"
  by (simp_all add: returns_def)

lemma returns_if [returns_intros]:
  "returns m n st x \<Longrightarrow> returns m n st y \<Longrightarrow> returns m n st (if c then x else y)"
  by simp

lemma returns_bind:
  "returns m n snd x \<Longrightarrow> (\<And>a s. below m n s \<Longrightarrow> returns m n st (f a s)) \<Longrightarrow>
     returns m n st (Option.bind x (case_prod f))"
  by (auto simp: returns_def)

lemma returns_bind_state:
  "returns m n (\<lambda>s. s) x \<Longrightarrow> (\<And>s. below m n s \<Longrightarrow> returns m n st (f s)) \<Longrightarrow> returns m n st (Option.bind x f)"
  by (auto simp: returns_def)

lemma returns_bind3:
  "returns m n (\<lambda>(a, b, s). s) x \<Longrightarrow> (\<And>a b s. below m n s \<Longrightarrow> returns m n st (f a b s)) \<Longrightarrow>
     returns m n st (Option.bind x (\<lambda>(a, b, s). f a b s))"
  by (auto simp: returns_def)

lemma returns_case [returns_intros]:
  "(\<And>a b. returns m n st (f a b s)) \<Longrightarrow> returns m n st ((case x of (a, b) \<Rightarrow> f a b) s)"
  "(\<And>a. returns m n st (g a)) \<Longrightarrow> (\<And>b. returns m n st (h b)) \<Longrightarrow> returns m n st (case y of Inl a \<Rightarrow> g a | Inr b \<Rightarrow> h b)"
  by (auto split: prod.splits sum.splits)

lemma returns_sys [returns_intros]:
  "patient K m \<Longrightarrow> below m n s \<Longrightarrow> (\<And>r s. below m n s \<Longrightarrow> returns m n st (f r s)) \<Longrightarrow>
     returns m n st (case sys K c s of (r, s) \<Rightarrow> f r s)"
  by (cases "sys K c s") (use patient_sys [of K m c s] in \<open>fastforce simp: below_def le_trans\<close>)

lemma returns_retry: "patient K m \<Longrightarrow> below m n s \<Longrightarrow> returns m n snd (retry K c s)"
  using retry_returns [of K m c s] unfolding returns_def below_def by fastforce

lemmas [returns_intros] = returns_bind [OF returns_retry]

lemma patient_do_sys [returns_intros]: "patient K m \<Longrightarrow> below m n s \<Longrightarrow> below m n (do_sys K c s)"
  using patient_le [of K m c "world s"] by (simp add: do_sys_def below_def)

lemma world_errno [returns_intros]: "below m n s \<Longrightarrow> below m n (s\<lparr>errno := err\<rparr>)"
  by (simp add: below_def)

lemma returnsE: "returns m n st x \<Longrightarrow> (\<And>y. x = Some y \<Longrightarrow> below m n (st y) \<Longrightarrow> P) \<Longrightarrow> P"
  by (auto simp: returns_def)

lemma write_all_returns: "patient K m \<Longrightarrow> below m n s \<Longrightarrow> returns m n snd (write_all K fd bs s)"
proof (induction "m (world s) + length bs" arbitrary: s bs rule: less_induct)
  case less
  obtain r s1 where sys: "sys K (Write fd bs) s = (r, s1)" by fastforce
  note step = patient_sys [OF less.prems(1) sys]
  then have s1: "below m n s1" using less.prems(2) by (simp add: below_def)
  show ?case
  proof (cases "bs = [] \<or> (r \<noteq> Fail EINTR \<and> rv r \<le> 0)")
    case True
    then show ?thesis using sys s1 less.prems(2)
      by (auto simp: write_all_unfold [of K fd bs] returns_def)
  next
    case False
    define rest where "rest = (if r = Fail EINTR then bs else drop (nat (rv r)) bs)"
    have "m (world s1) + length rest < m (world s) + length bs"
    proof (cases "r = Fail EINTR")
      case not_intr: False
      with False have "length (drop (nat (rv r)) bs) < length bs" by simp
      with step not_intr show ?thesis by (simp add: rest_def del: length_drop)
    qed (use step in \<open>simp add: rest_def\<close>)
    from less.hyps [OF this less.prems(1) s1] False sys show ?thesis
      by (auto simp: write_all_unfold [of K fd bs] rest_def split: if_splits)
  qed
qed

lemma read_loop_returns: "patient K m \<Longrightarrow> below m n s \<Longrightarrow> returns m n snd (read_loop K fd k got s)"
proof (induction "m (world s) + k" arbitrary: s k got rule: less_induct)
  case less
  obtain r s1 where sys: "sys K (Read fd k) s = (r, s1)" by fastforce
  note step = patient_sys [OF less.prems(1) sys]
  then have s1: "below m n s1" using less.prems(2) by (simp add: below_def)
  show ?case
  proof (cases "k = 0 \<or> (r \<noteq> Fail EINTR \<and> rv r \<le> 0)")
    case True
    then show ?thesis using sys s1 less.prems(2)
      by (auto simp: read_loop_unfold [of K fd k] returns_def)
  next
    case False
    define k' where "k' = (if r = Fail EINTR then k else k - nat (rv r))"
    have "m (world s1) + k' < m (world s) + k"
      using step False by (auto simp: k'_def)
    from less.hyps [OF this less.prems(1) s1] False sys show ?thesis
      by (auto simp: read_loop_unfold [of K fd k] k'_def split: if_splits)
  qed
qed

lemmas read_all_returns = read_loop_returns [where got = "[]", folded read_all_def]

lemmas [returns_intros] = returns_bind [OF write_all_returns] returns_bind [OF read_all_returns]

lemma send_message_returns: "patient K m \<Longrightarrow> below m n s \<Longrightarrow> returns m n snd (send_message K fd ty p s)"
  unfolding send_message_def Let_def
  by (assumption | rule returns_intros write_all_returns)+

lemma receive_message_returns: "patient K m \<Longrightarrow> below m n s \<Longrightarrow> returns m n snd (receive_message K fd k s)"
  unfolding receive_message_def Let_def
  by (assumption | rule returns_intros)+

lemmas [returns_intros] = returns_bind [OF send_message_returns] returns_bind [OF receive_message_returns]

text \<open>Where the last attempt of a retried call started.\<close>

lemma retry_last:
  assumes "patient K m" "retry K c s = Some (r, t)"
  shows "\<exists>w. K c w = (r, world t) \<and> m w \<le> m (world s)"
proof -
  define P where "P = (\<lambda>(K' :: 'a kernel) c' (s :: 'a proc) (x :: reply \<times> 'a proc).
     patient K' m \<longrightarrow> (\<exists>w. K' c' w = (fst x, world (snd x)) \<and> m w \<le> m (world s)))"
  have "P K c s (r, t)"
  proof (rule retry.raw_induct [where P = P, OF _ assms(2)])
    fix f :: "'a kernel \<Rightarrow> syscall \<Rightarrow> 'a proc \<Rightarrow> (reply \<times> 'a proc) option" and K c s x
    assume IH: "\<And>K c s x. f K c s = Some x \<Longrightarrow> P K c s x"
      and eq: "(case sys K c s of (r, s') \<Rightarrow>
                  if rv r = - 1 \<and> errno s' = EINTR then f K c s' else Some (r, s')) = Some x"
    obtain r s' where sys: "sys K c s = (r, s')" by fastforce
    show "P K c s x"
    proof (cases "rv r = - 1 \<and> errno s' = EINTR")
      case True
      with eq sys have "f K c s' = Some x" by simp
      with IH patient_sys [of K m, OF _ sys] show ?thesis unfolding P_def by (meson order_trans)
    next
      case False
      with eq sys have "x = (r, s')" by simp
      with sys_world [OF sys] show ?thesis unfolding P_def by auto
    qed
  qed
  with assms(1) show ?thesis by (simp add: P_def)
qed

end
