(* ===== verification/Runner_Liveness.thy ===== *)
theory Runner_Liveness
  imports Runner_Invariant Returning
begin

text \<open>
  The steps of \<open>ProcessRunner::run\<close> return: over every kernel that does not interrupt a call for ever, its cleanups,
  its handlers and each round of its main loop come to an end.
\<close>

section \<open>The runner's cleanup always returns\<close>

lemma is_execution_cgroup_empty_returns:
  "patient K m \<Longrightarrow> below m n s \<Longrightarrow> returns m n snd (is_execution_cgroup_empty K i s)"
  unfolding is_execution_cgroup_empty_def Let_def by (assumption | rule returns_intros)+

lemma kill_execution_cgroup_returns:
  "patient K m \<Longrightarrow> below m n s \<Longrightarrow> returns m n snd (kill_execution_cgroup K i s)"
  unfolding kill_execution_cgroup_def Let_def by (assumption | rule returns_intros)+

lemmas [returns_intros] = returns_bind [OF is_execution_cgroup_empty_returns] returns_bind [OF kill_execution_cgroup_returns]

lemma cgroup_wait_returns:
  "patient K m \<Longrightarrow> below m n s \<Longrightarrow> returns m n (\<lambda>s. s) (cgroup_wait K i k s)"
proof (induction k arbitrary: s)
  case (Suc k)
  then show ?case unfolding cgroup_wait.simps by - (assumption | rule Suc.IH returns_intros)+
qed (simp add: returns_def)

lemma await_cgroup_empty_returns:
  "patient K m \<Longrightarrow> below m n s \<Longrightarrow> returns m n snd (await_cgroup_empty K i s)"
  unfolding await_cgroup_empty_def
  by (assumption | rule returns_bind_state [OF cgroup_wait_returns] is_execution_cgroup_empty_returns)+

lemma returns_cleanup_cgroup [returns_intros]:
  "patient K m \<Longrightarrow> below m n s \<Longrightarrow> (\<And>ok s. below m n s \<Longrightarrow> returns m n st (f ok s)) \<Longrightarrow>
     returns m n st (case cleanup_execution_cgroup K i s of (ok, s) \<Rightarrow> f ok s)"
proof -
  assume a: "patient K m" "below m n s" "\<And>ok s. below m n s \<Longrightarrow> returns m n st (f ok s)"
  obtain ok t where t: "cleanup_execution_cgroup K i s = (ok, t)" by fastforce
  have "returns m n snd (Some (cleanup_execution_cgroup K i s))"
    unfolding cleanup_execution_cgroup_def using a(1,2)
    by (simp add: returns_def below_def split: prod.split) (meson order_trans patient_sys)
  with t a(3) show ?thesis by (simp add: returns_def)
qed

lemma close_parent_ends_le [returns_intros]:
  "patient K m \<Longrightarrow> below m n s \<Longrightarrow> below m n (close_parent_ends K fds s)"
  unfolding close_parent_ends_def by (assumption | rule returns_intros)+

lemmas [returns_intros] = returns_bind [OF await_cgroup_empty_returns]

lemma cleanup_before_ready_returns:
  "patient K m \<Longrightarrow> below m n s \<Longrightarrow> returns m n snd (cleanup_before_ready K e s)"
  unfolding cleanup_before_ready_def Let_def by (assumption | rule returns_intros)+

lemma supervisor_wait_returns:
  "patient K m \<Longrightarrow> below m n s \<Longrightarrow> returns m n snd (supervisor_wait K pid k s)"
proof (induction k arbitrary: s)
  case (Suc k)
  then show ?case unfolding supervisor_wait.simps by - (assumption | rule Suc.IH returns_intros)+
qed (simp add: returns_def)

lemma contain_execution_returns:
  "patient K m \<Longrightarrow> below m n s \<Longrightarrow> returns m n snd (contain_execution K e s)"
  unfolding contain_execution_def by (assumption | rule returns_intros await_cgroup_empty_returns)+

lemma reap_and_contain_returns:
  "patient K m \<Longrightarrow> below m n s \<Longrightarrow> returns m n snd (reap_and_contain K e s)"
  unfolding reap_and_contain_def Let_def
  by (assumption | rule returns_intros returns_bind [OF supervisor_wait_returns]
    returns_bind [OF contain_execution_returns] returns_bind3)+

lemma returns_close [returns_intros]:
  assumes "patient K m" "below m n s" "\<And>p s. below m n s \<Longrightarrow> returns m n st (g p s)"
  shows "returns m n st (case when_open c (close_stdin K e) p s of (p, s) \<Rightarrow> g p s)"
    "returns m n st (case when_open c (close_stdout K e) p s of (p, s) \<Rightarrow> g p s)"
    "returns m n st (case when_open c (close_stderr K e) p s of (p, s) \<Rightarrow> g p s)"
    "returns m n st (case when_open c (close_control K e) p s of (p, s) \<Rightarrow> g p s)"
    "returns m n st (case close_stdin K e p s of (p, s) \<Rightarrow> g p s)"
    "returns m n st (case close_stdout K e p s of (p, s) \<Rightarrow> g p s)"
    "returns m n st (case close_stderr K e p s of (p, s) \<Rightarrow> g p s)"
    "returns m n st (case close_pipes K e p s of (p, s) \<Rightarrow> g p s)"
    "returns m n st (case finalize_resource_usage K e p s of (p, s) \<Rightarrow> g p s)"
proof -
  note d = patient_do_sys [OF assms(1)]
  have s: "below m n t \<Longrightarrow> sys K Clock t = (r, u) \<Longrightarrow> below m n u" for t r u
    using patient_sys [OF assms(1)] by (fastforce simp: below_def)
  show "returns m n st (case when_open c (close_stdin K e) p s of (p, s) \<Rightarrow> g p s)"
    "returns m n st (case when_open c (close_stdout K e) p s of (p, s) \<Rightarrow> g p s)"
    "returns m n st (case when_open c (close_stderr K e) p s of (p, s) \<Rightarrow> g p s)"
    "returns m n st (case when_open c (close_control K e) p s of (p, s) \<Rightarrow> g p s)"
    "returns m n st (case close_stdin K e p s of (p, s) \<Rightarrow> g p s)"
    "returns m n st (case close_stdout K e p s of (p, s) \<Rightarrow> g p s)"
    "returns m n st (case close_stderr K e p s of (p, s) \<Rightarrow> g p s)"
    by (simp_all add: when_open_def close_defs assms(2,3) d)
  show "returns m n st (case close_pipes K e p s of (p, s) \<Rightarrow> g p s)"
    by (simp add: close_pipes_def when_open_def close_defs assms(2,3) d)
  show "returns m n st (case finalize_resource_usage K e p s of (p, s) \<Rightarrow> g p s)"
    using s [OF assms(2)] by (auto simp: finalize_resource_usage_def assms(3) split: prod.splits)
qed

lemma request_termination_returns:
  assumes "patient K m" "below m n s"
  shows "returns m n snd (if control_channel_open p then do {
         (sent, s) \<leftarrow> send_message K (control_r e) Terminate [] s;
         Some (if sent then (p\<lparr>termination_requested := True\<rparr>, s) else close_control K e p s)
       } else Some (p, s))"
proof -
  have "returns m n snd (Some (if sent then (p\<lparr>termination_requested := True\<rparr>, t) else close_control K e p t))"
    if "below m n t" for sent t
    using that patient_do_sys [OF assms(1)] by (simp add: returns_def close_control_def)
  then show ?thesis using assms by - (assumption | rule returns_intros | blast)+
qed

lemma cleanup_after_failure_returns:
  "patient K m \<Longrightarrow> below m n s \<Longrightarrow> returns m n (\<lambda>(a, b, s). s) (cleanup_after_failure K e p s)"
  unfolding cleanup_after_failure_def Let_def
  by (assumption | rule returns_intros returns_bind [OF request_termination_returns]
    returns_bind [of m n "if supervisor_pid e > 0 then reap_and_contain K e _ else Some (True, _)"] reap_and_contain_returns)+

lemmas [returns_intros] = returns_bind3 [OF cleanup_after_failure_returns]

lemma finish_supervisor_terminal_returns:
  "patient K m \<Longrightarrow> below m n s \<Longrightarrow> returns m n (\<lambda>(a, b, s). s) (finish_supervisor_terminal K e p s)"
  unfolding finish_supervisor_terminal_def Let_def by (assumption | rule returns_intros)+

lemmas [returns_intros] = returns_bind3 [OF finish_supervisor_terminal_returns]

lemma give_up_returns [returns_intros]:
  "patient K m \<Longrightarrow> below m n s \<Longrightarrow> returns m n snd (give_up K e p s)"
  "patient K m \<Longrightarrow> below m n s \<Longrightarrow> returns m n snd (give_up_runner K e p s)"
  "patient K m \<Longrightarrow> below m n s \<Longrightarrow> returns m n snd (give_up_classified K e p s)"
  unfolding give_up_def give_up_runner_def give_up_classified_def by (assumption | rule returns_intros)+

lemma handlers_return [returns_intros]:
  "patient K m \<Longrightarrow> below m n s \<Longrightarrow> returns m n snd (enforce_deadline K e now p s)"
  "patient K m \<Longrightarrow> below m n s \<Longrightarrow> returns m n snd (handle_setup_failed K e h p s)"
  "patient K m \<Longrightarrow> below m n s \<Longrightarrow> returns m n snd (handle_terminated K e h p s)"
  "patient K m \<Longrightarrow> below m n s \<Longrightarrow> returns m n snd (runner_stdout K e ready p s)"
  "patient K m \<Longrightarrow> below m n s \<Longrightarrow> returns m n snd (runner_stderr K e ready p s)"
  unfolding enforce_deadline_def handle_setup_failed_def handle_terminated_def runner_stdout_def runner_stderr_def Let_def
  by (assumption | rule returns_intros)+

lemma runner_control_returns [returns_intros]:
  "patient K m \<Longrightarrow> below m n s \<Longrightarrow> returns m n snd (runner_control K e ready p s)"
  unfolding runner_control_def Let_def by (assumption | rule returns_intros)+

lemma returns_if_pair [returns_intros]:
  "(\<And>s. below m n s \<Longrightarrow> returns m n st (case x of (p, s) \<Rightarrow> g p s)) \<Longrightarrow> returns m n st (case y of (p, s) \<Rightarrow> g p s) \<Longrightarrow>
     below m n s \<Longrightarrow> returns m n st (case (if c then x else y) of (p, s) \<Rightarrow> g p s)"
  by simp

lemma returns_pair [returns_intros]: "returns m n st (g p s) \<Longrightarrow> returns m n st (case (p, s) of (p, s) \<Rightarrow> g p s)"
  by simp

lemma runner_stdin_returns [returns_intros]:
  "patient K m \<Longrightarrow> below m n s \<Longrightarrow> returns m n snd (runner_stdin K e ready p s)"
  unfolding runner_stdin_def Let_def by (assumption | rule returns_intros)+

section \<open>A round of the main loop returns\<close>

lemma returns_and_then [returns_intros]:
  assumes "returns m n snd x" "\<And>p s. below m n s \<Longrightarrow> returns m n snd (f p s)"
  shows "returns m n snd (and_then x f)"
  unfolding and_then_def using assms by - (assumption | rule returns_bind returns_Some returns_case | blast)+

lemma runner_round_returns: "patient K m \<Longrightarrow> below m n s \<Longrightarrow> returns m n snd (runner_round K e p s)"
  unfolding runner_round_def by (assumption | rule returns_intros)+

text \<open>After the \<open>Terminated\<close> message the submission counts as finished.\<close>

lemma terminated_finishes:
  "handle_terminated K e h p s = Some (Inr p', s') \<Longrightarrow> submission_finished p'"
  unfolding handle_terminated_def finish_supervisor_terminal_def finalize_resource_usage_def finalize_status_def
    close_pipes_def when_open_def close_defs give_up_runner_def give_up_classified_def Let_def
  by (auto elim!: bind_SomeE split: if_splits prod.splits)

end
