(* ===== verification/Runner_Entry.thy ===== *)
theory Runner_Entry
  imports Runner_Liveness
begin

text \<open>
  \<open>ProcessRunner::run\<close> as its callers see it, from the identifier of the execution to the return: what a failed run
  leaves in the result, which descriptors are opened and closed before the fork, what the log shows of a run that did
  not fail, and that identifiers do not repeat.
\<close>

section \<open>A failed run is never decided\<close>

text \<open>
  Until the submission has been reported the result still holds the exit code 1 it started with; once it has been
  reported nothing fails any more.
\<close>

definition blank :: "ExecutionResult \<Rightarrow> bool" where
  "blank res \<longleftrightarrow> exit_code res = 1 \<and> \<not> terminated_by_signal res"

definition undecided :: "runner \<Rightarrow> bool" where
  "undecided p \<longleftrightarrow> (if submission_finished p then all_closed p else blank (run_result p))"

definition cautious :: "'w run_step \<Rightarrow> bool" where
  "cautious x \<longleftrightarrow> (\<forall>y s. x = Some (y, s) \<longrightarrow> (case y of Inl res \<Rightarrow> blank res | Inr p \<Rightarrow> undecided p))"

lemma blank_update [simp]:
  "blank (res\<lparr>status := st\<rparr>) = blank res" "blank (res\<lparr>state := x\<rparr>) = blank res"
  "blank (res\<lparr>wall_time_limit_exceeded := b\<rparr>) = blank res"
  by (simp_all add: blank_def)

lemma cautious_Some [simp]:
  "cautious (Some (Inl res, s)) = blank res" "cautious (Some (Inr p, s)) = undecided p"
  by (auto simp: cautious_def)

lemma cautious_bind:
  "(\<And>a t. x = Some (a, t) \<Longrightarrow> cautious (f a t)) \<Longrightarrow> cautious (Option.bind x (case_prod f))"
  unfolding cautious_def by (auto elim!: bind_SomeE)

lemma cautious_and_then:
  assumes "cautious x" "\<And>p s. x = Some (Inr p, s) \<Longrightarrow> undecided p \<Longrightarrow> cautious (f p s)"
  shows "cautious (and_then x f)"
  unfolding and_then_def
proof (rule cautious_bind, goal_cases)
  case (1 y s)
  with assms show ?case by (cases y) (auto simp: cautious_def)
qed

lemma cautious_give_up:
  assumes "blank (run_result p)"
  shows "cautious (give_up K e p s)" "cautious (give_up_runner K e p s)" "cautious (give_up_classified K e p s)"
  using assms by (auto simp: cautious_def give_up_def give_up_runner_def give_up_classified_def
    elim!: bind_SomeE dest: cleanup_after_failure_result)

lemma cautious_Inl: "cautious x \<Longrightarrow> x = Some (Inl res, s) \<Longrightarrow> blank res"
  by (auto simp: cautious_def)

lemma kept_result:
  "finish_supervisor_terminal K e p s = Some (ok, q, t) \<Longrightarrow> run_result q = run_result p"
  "close_pipes K e p s = (q, t) \<Longrightarrow> run_result q = run_result p"
  by (auto simp: finish_supervisor_terminal_def Let_def close_pipes_def elim!: bind_SomeE split: prod.splits if_splits
    dest!: when_open_result)

lemma close_pipes_closed: "close_pipes K e p s = (q, t) \<Longrightarrow> \<not> stdin_open q \<and> \<not> stdout_open q \<and> \<not> stderr_open q"
  by (auto simp: close_pipes_def when_open_def close_defs split: if_splits)

lemma give_up_ends:
  "give_up_runner K e p s \<noteq> Some (Inr q, t)" "give_up_classified K e p s \<noteq> Some (Inr q, t)"
  by (auto simp: give_up_runner_def give_up_classified_def elim!: bind_SomeE)

lemma cautious_setup_failed:
  assumes "blank (run_result p)"
  shows "cautious (handle_setup_failed K e header p s)"
  unfolding handle_setup_failed_def Let_def
  using cautious_give_up [OF assms] assms
  by (auto intro!: cautious_bind split: prod.splits dest!: kept_result)

lemma cautious_terminated:
  assumes "blank (run_result p)"
  shows "cautious (handle_terminated K e header p s)"
  unfolding cautious_def
proof (intro allI impI)
  fix y t assume h: "handle_terminated K e header p s = Some (y, t)"
  show "case y of Inl res \<Rightarrow> blank res | Inr p \<Rightarrow> undecided p"
  proof (cases y)
    case (Inl res)
    with h assms show ?thesis unfolding handle_terminated_def Let_def
      by (auto elim!: bind_SomeE split: prod.splits if_splits dest!: kept_result
        cautious_Inl [OF cautious_give_up(2) [OF assms]] cautious_Inl [OF cautious_give_up(3) [OF assms]])
  next
    case (Inr q)
    have "\<not> stdin_open q \<and> \<not> stdout_open q \<and> \<not> stderr_open q"
      using h Inr unfolding handle_terminated_def Let_def
      by (auto simp: give_up_ends elim!: bind_SomeE split: prod.splits if_splits dest!: close_pipes_closed)
    with terminated_finishes [of K e header p s q t] h Inr show ?thesis by (simp add: undecided_def all_closed_def)
  qed
qed

lemma cautious_control:
  assumes "\<not> submission_finished p" "blank (run_result p)"
  shows "cautious (runner_control K e ready p s)"
  unfolding runner_control_def Let_def
  using assms cautious_give_up [OF assms(2)] cautious_setup_failed [OF assms(2)] cautious_terminated [OF assms(2)]
  by (auto simp: undecided_def simp del: msg_code.simps intro!: cautious_bind)

lemma closed_undecided:
  "close_stdin K e p s = (q, t) \<Longrightarrow> undecided p \<Longrightarrow> undecided q"
  "close_stdout K e p s = (q, t) \<Longrightarrow> undecided p \<Longrightarrow> undecided q"
  "close_stderr K e p s = (q, t) \<Longrightarrow> undecided p \<Longrightarrow> undecided q"
  by (auto simp: close_defs undecided_def all_closed_def)

lemma cautious_output:
  assumes "undecided p"
  shows "cautious (runner_stdout K e ready p s)" "cautious (runner_stderr K e ready p s)"
proof -
  have b: "blank (run_result p)" if "stdout_open p \<or> stderr_open p"
    using assms that by (auto simp: undecided_def all_closed_def split: if_splits)
  have u: "undecided (p\<lparr>stdout_read := bs\<rparr>)" "undecided (p\<lparr>stderr_read := bs\<rparr>)" for bs
    using assms by (auto simp: undecided_def all_closed_def)
  show "cautious (runner_stdout K e ready p s)" "cautious (runner_stderr K e ready p s)"
    unfolding runner_stdout_def runner_stderr_def
    using assms b u by (auto intro!: cautious_bind cautious_give_up split: prod.splits dest: closed_undecided)
qed

lemma cautious_stdin:
  assumes "undecided p"
  shows "cautious (runner_stdin K e ready p s)"
proof -
  have b: "blank (run_result p)" if "stdin_open p"
    using assms that by (auto simp: undecided_def all_closed_def split: if_splits)
  show ?thesis unfolding runner_stdin_def Let_def
    using assms b by (auto simp: close_stdin_def undecided_def all_closed_def intro!: cautious_bind cautious_give_up split: if_splits)
qed

lemma cautious_deadline:
  assumes "\<not> submission_finished p" "blank (run_result p)"
  shows "cautious (enforce_deadline K e now p s)"
  unfolding enforce_deadline_def Let_def
  using assms by (auto simp: undecided_def when_open_def close_defs intro!: cautious_bind cautious_give_up split: prod.splits if_splits)

lemma deadline_running:
  "enforce_deadline K e now p s = Some (Inr q, t) \<Longrightarrow> \<not> submission_finished p \<Longrightarrow> \<not> submission_finished q"
  unfolding enforce_deadline_def Let_def give_up_def
  by (auto simp: when_open_def close_defs elim!: bind_SomeE split: prod.splits if_splits)

lemma cautious_round:
  assumes "\<not> submission_finished p" "blank (run_result p)"
  shows "cautious (runner_round K e p s)"
proof -
  obtain now s1 where c: "sys K Clock s = (now, s1)" by fastforce
  show ?thesis unfolding runner_round_def c prod.case
  proof (rule cautious_and_then [OF cautious_deadline [OF assms]], goal_cases)
    case (1 q t)
    then have q: "\<not> submission_finished q" "blank (run_result q)"
      using deadline_running [OF 1(1) assms(1)] by (auto simp: undecided_def)
    show ?case using q
      by (auto simp: undecided_def all_closed_def intro!: cautious_bind cautious_give_up cautious_and_then
        cautious_control cautious_stdin cautious_output)
  qed
qed

lemma cautious_loop:
  assumes "runner_loop K e p s = Some (x, s')" "undecided p"
  shows "case x of Inl res \<Rightarrow> blank res | Inr q \<Rightarrow> True"
proof -
  have c: "cautious (runner_round K e p t)" if "undecided p" "\<not> all_closed p" for p t
    using that by (intro cautious_round) (auto simp: undecided_def split: if_splits)
  from assms have loop: "case x of
      Inl res \<Rightarrow> \<exists>p s. undecided p \<and> \<not> all_closed p \<and> runner_round K e p s = Some (Inl res, s')
    | Inr q \<Rightarrow> undecided q \<and> all_closed q"
    by (rule runner_loop_rule [where I = "\<lambda>p _. undecided p"]) (use c in \<open>fastforce simp: cautious_def\<close>)
  have "blank res" if "undecided p" "\<not> all_closed p" "runner_round K e p s = Some (Inl res, t)" for p s res t
    using c [OF that(1,2), of s] that(3) by (simp add: cautious_def)
  with loop show ?thesis by (cases x) auto
qed

section \<open>Before the fork\<close>

text \<open>
  What the kernel documents of descriptors: \<open>socketpair\<close> and \<open>pipe\<close> fail or return two new descriptors, where
  \<open>held\<close> are those in use.
\<close>

definition fresh_fds :: "'w kernel \<Rightarrow> ('w \<Rightarrow> int set) \<Rightarrow> bool" where
  "fresh_fds K held \<longleftrightarrow> (\<forall>c \<in> {Socketpair, Pipe}. \<forall>w. (\<exists>err. fst (K c w) = Fail err) \<or>
     (\<exists>a b. fst (K c w) = Fds a b \<and> a \<noteq> b \<and> int a \<notin> held w \<and> int b \<notin> held w \<and>
        held w \<union> {int a, int b} \<subseteq> held (snd (K c w))))"

text \<open>The pairs of descriptors a log opened, in order.\<close>

definition opened :: "call_log \<Rightarrow> (int \<times> int) list" where
  "opened log = map (reply_fds \<circ> snd) (filter (\<lambda>x. fst x \<in> {Socketpair, Pipe} \<and> rv (snd x) \<noteq> - 1) log)"

lemma opened_simps [simp]:
  "opened [] = []" "opened (xs @ ys) = opened xs @ opened ys"
  "opened ((c, r) # log) = (if c \<in> {Socketpair, Pipe} \<and> rv r \<noteq> - 1 then [reply_fds r] else []) @ opened log"
  by (simp_all add: opened_def)

lemma fresh_fds_sys:
  assumes "fresh_fds K held" "c \<in> {Socketpair, Pipe}" "sys K c s = (r, t)" "rv r \<noteq> - 1"
  shows "fst (reply_fds r) \<noteq> snd (reply_fds r) \<and> fst (reply_fds r) \<notin> held (world s) \<and> snd (reply_fds r) \<notin> held (world s) \<and>
    held (world s) \<union> {fst (reply_fds r), snd (reply_fds r)} \<subseteq> held (world t)"
proof -
  have k: "K c (world s) = (r, world t)" using sys_world [OF assms(3)] .
  from assms(1,2) have "(\<exists>err. fst (K c (world s)) = Fail err) \<or> (\<exists>a b. fst (K c (world s)) = Fds a b \<and> a \<noteq> b \<and>
      int a \<notin> held (world s) \<and> int b \<notin> held (world s) \<and> held (world s) \<union> {int a, int b} \<subseteq> held (snd (K c (world s))))"
    unfolding fresh_fds_def by blast
  with k assms(4) show ?thesis by auto
qed

text \<open>Every call of the entry, in order, up to the point where the runner's own branch takes over.\<close>

definition entry_quiet :: "syscall \<Rightarrow> bool" where
  "entry_quiet c \<longleftrightarrow> c \<in> {Socketpair, Pipe, Clock, Fork, Getpid} \<or> (\<exists>sig d. c = Sigaction sig d)"

lemma entry_quiet_log:
  assumes "\<forall>x \<in> set log. entry_quiet (fst x)"
  shows "put_on fd log = []" "got_from fd log = []" "closes fd log = 0"
  using assms by (auto simp: entry_quiet_def closes_def filter_empty_conv put_on_def got_from_def split: syscall.splits)

lemma four_pairs_distinct:
  assumes "fresh_fds K held" "sys K Socketpair s = (r1, s1)" "sys K Pipe s1 = (r2, s2)" "sys K Pipe s2 = (r3, s3)"
    "sys K Pipe s3 = (r4, s4)" "rv r1 \<noteq> - 1" "rv r2 \<noteq> - 1" "rv r3 \<noteq> - 1" "rv r4 \<noteq> - 1"
  shows "all_distinct \<lparr>control_socket = reply_fds r1, stdin_pipe = reply_fds r2, stdout_pipe = reply_fds r3, stderr_pipe = reply_fds r4\<rparr>"
  using fresh_fds_sys [OF assms(1) _ assms(2,6)] fresh_fds_sys [OF assms(1) _ assms(3,7)]
    fresh_fds_sys [OF assms(1) _ assms(4,8)] fresh_fds_sys [OF assms(1) _ assms(5,9)]
  by (auto simp: all_distinct_def)

text \<open>Closing pairs of descriptors, last opened first closed last.\<close>

definition released :: "(int \<times> int) list \<Rightarrow> 'w proc \<Rightarrow> 'w proc \<Rightarrow> bool" where
  "released ps s t \<longleftrightarrow> (\<exists>new. emits s new t \<and> (\<forall>p \<in> set ps. fst p \<in> closed_fds new \<and> snd p \<in> closed_fds new) \<and>
     opened new = [] \<and> (\<forall>r. (Fork, r) \<notin> set new))"

lemma released_Nil: "released [] s s"
  unfolding released_def by (intro exI [of _ "[]"]) simp

lemma released_close_pair: "released ps s t \<Longrightarrow> released (p # ps) s (close_pair K p t)"
proof -
  assume "released ps s t"
  then obtain new where n: "emits s new t" "\<forall>p \<in> set ps. fst p \<in> closed_fds new \<and> snd p \<in> closed_fds new" "opened new = []"
    "\<forall>r. (Fork, r) \<notin> set new" unfolding released_def by blast
  let ?c = "[(Close (fst p), fst (K (Close (fst p)) (world t))),
        (Close (snd p), fst (K (Close (snd p)) (world (do_sys K (Close (fst p)) t))))]"
  have "emits t ?c (close_pair K p t)" by (simp add: close_pair_def emits_def)
  from emits_trans [OF n(1) this] n show ?thesis unfolding released_def by (intro exI [of _ "new @ ?c"]) auto
qed

text \<open>
  A run of the entry in the caller either fails before there is a supervisor, with every descriptor it opened closed
  again, or goes on in \<open>run_parent\<close> with eight different descriptors.
\<close>

lemma run_forked_returns:
  assumes run: "run_forked K executable args input cfg res eid s = Some (Returns res', s')" and fresh: "fresh_fds K held"
  shows "(\<exists>new. emits s new s' \<and> res' = res\<lparr>state := RunnerFailed, status := RunnerFailure\<rparr> \<and>
      (\<forall>r. (Fork, r) \<in> set new \<longrightarrow> rv r = - 1) \<and> (\<forall>p \<in> set (opened new). fst p \<in> closed_fds new \<and> snd p \<in> closed_fds new)) \<or>
    (\<exists>e pre s1. emits s pre s1 \<and> (\<forall>x \<in> set pre. entry_quiet (fst x)) \<and> run_parent K e res s1 = Some (res', s') \<and>
      opened pre = [control_socket (run_fds e), stdin_pipe (run_fds e), stdout_pipe (run_fds e), stderr_pipe (run_fds e)] \<and>
      all_distinct (run_fds e) \<and> run_input e = input \<and> (\<exists>w. rv (fst (K Fork w)) = supervisor_pid e) \<and> 0 < supervisor_pid e)"
    (is "?failed \<or> ?forked")
proof -
  let ?f = "res\<lparr>state := RunnerFailed, status := RunnerFailure\<rparr>"
  obtain r1 s1 where 1: "sys K Socketpair s = (r1, s1)" by fastforce
  obtain r2 s2 where 2: "sys K Pipe s1 = (r2, s2)" by fastforce
  obtain r3 s3 where 3: "sys K Pipe s2 = (r3, s3)" by fastforce
  obtain r4 s4 where 4: "sys K Pipe s3 = (r4, s4)" by fastforce
  obtain r5 s5 where 5: "sys K Clock s4 = (r5, s5)" by fastforce
  obtain r6 s6 where 6: "sys K Fork s5 = (r6, s6)" by fastforce
  note e = emits_sys [OF 1] emits_sys [OF 2] emits_sys [OF 3] emits_sys [OF 4] emits_sys [OF 5] emits_sys [OF 6]
  note run' = run [unfolded run_forked_def Let_def 1 2 3 4 5 6 prod.case]
  have failed: ?failed if "emits s pre t" "set (opened pre) \<subseteq> set ps" "\<forall>r. (Fork, r) \<in> set pre \<longrightarrow> rv r = - 1" "res' = ?f"
    "released ps t s'" for pre t ps
  proof -
    from that(5) obtain new where n: "emits t new s'" "\<forall>p \<in> set ps. fst p \<in> closed_fds new \<and> snd p \<in> closed_fds new"
      "opened new = []" "\<forall>r. (Fork, r) \<notin> set new" unfolding released_def by blast
    from emits_trans [OF that(1) n(1)] n(2-4) that(2-4) show ?thesis by (intro exI [of _ "pre @ new"]) auto
  qed
  note rel = released_close_pair released_Nil
  show ?thesis
  proof (cases "rv r1 = - 1 \<or> rv r2 = - 1 \<or> rv r3 = - 1 \<or> rv r4 = - 1 \<or> rv r6 = - 1")
    case True
    note f = failed [OF e(1), of "[]"] failed [OF emits_trans [OF e(1,2)], of "[reply_fds r1]"]
      failed [OF emits_trans [OF e(1) emits_trans [OF e(2,3)]], of "[reply_fds r2, reply_fds r1]"]
      failed [OF emits_trans [OF e(1) emits_trans [OF e(2) emits_trans [OF e(3,4)]]], of "[reply_fds r3, reply_fds r2, reply_fds r1]"]
      failed [OF emits_trans [OF e(1) emits_trans [OF e(2) emits_trans [OF e(3) emits_trans [OF e(4) emits_trans [OF e(5,6)]]]]],
        of "[reply_fds r4, reply_fds r3, reply_fds r2, reply_fds r1]"]
    from True consider "rv r1 = - 1" | "rv r1 \<noteq> - 1" "rv r2 = - 1" | "rv r1 \<noteq> - 1" "rv r2 \<noteq> - 1" "rv r3 = - 1"
      | "rv r1 \<noteq> - 1" "rv r2 \<noteq> - 1" "rv r3 \<noteq> - 1" "rv r4 = - 1"
      | "rv r1 \<noteq> - 1" "rv r2 \<noteq> - 1" "rv r3 \<noteq> - 1" "rv r4 \<noteq> - 1" "rv r6 = - 1" by blast
    then have ?failed
    proof cases
      case 1 with run' f(1) show ?thesis by (auto simp: rel)
    next
      case 2 with run' f(2) show ?thesis by (auto simp: rel)
    next
      case 3 with run' f(3) show ?thesis by (auto simp: rel)
    next
      case 4 with run' f(4) show ?thesis by (auto simp: rel)
    next
      case 5 with run' f(5) show ?thesis by (auto simp: rel)
    qed
    then show ?thesis ..
  next
    case False
    then have n: "rv r1 \<noteq> - 1" "rv r2 \<noteq> - 1" "rv r3 \<noteq> - 1" "rv r4 \<noteq> - 1" "rv r6 \<noteq> - 1" by auto
    let ?fds = "\<lparr>control_socket = reply_fds r1, stdin_pipe = reply_fds r2, stdout_pipe = reply_fds r3, stderr_pipe = reply_fds r4\<rparr>"
    let ?e = "\<lparr>run_fds = ?fds, supervisor_pid = rv r6, run_execution_id = eid, start_time = rv r5,
         deadline = rv r5 + wall_limit (limit cfg) * 1000000, run_input = input\<rparr>"
    let ?pre = "[(Socketpair, r1), (Pipe, r2), (Pipe, r3), (Pipe, r4), (Clock, r5), (Fork, r6)]"
    have p: "run_parent K ?e res s6 = Some (res', s')" "rv r6 \<noteq> 0"
      using run' n by (auto split: if_splits)
    have "emits s ?pre s6" using e by (simp add: emits_def)
    moreover have "all_distinct ?fds"
      by (rule four_pairs_distinct [OF fresh 1 2 3 4 n(1-4)])
    moreover have "0 < rv r6" using p(2) n(5) by (cases r6) auto
    moreover have "opened ?pre = [control_socket ?fds, stdin_pipe ?fds, stdout_pipe ?fds, stderr_pipe ?fds]" using n by simp
    moreover have "\<forall>x \<in> set ?pre. entry_quiet (fst x)" by (simp add: entry_quiet_def)
    moreover have "\<exists>w. rv (fst (K Fork w)) = rv r6" using sys_world [OF 6] by (metis fst_conv)
    ultimately have ?forked using p(1) by (intro exI [of _ ?e] exI [of _ ?pre] exI [of _ s6]) auto
    then show ?thesis ..
  qed
qed

section \<open>The whole operation\<close>

text \<open>A result states the exit code, signal, CPU time and memory of a \<open>Terminated\<close> message.\<close>

definition reports :: "ExecutionResult \<Rightarrow> SandboxTerminatedPayload \<Rightarrow> bool" where
  "reports res t \<longleftrightarrow> (let st = wait_status t in
     exit_code res = (if WIFEXITED st then uint (WEXITSTATUS st) else 1) \<and>
     terminated_by_signal res = WIFSIGNALED st \<and>
     signal_number res = (if WIFSIGNALED st then uint (WTERMSIG st) else 0) \<and>
     cpu_time res = to_microseconds (ru_utime (usage t)) + to_microseconds (ru_stime (usage t)) \<and>
     memory_usage_bytes res = ru_maxrss (usage t) * 1024)"

text \<open>
  What the log of a run shows for its result: the descriptors come from the run's own socket pair and pipes, the
  captured streams are the bytes read from them, the submission was fed a prefix of its input, and the exit status is
  that of the \<open>Terminated\<close> message that came in last.
\<close>

definition witnessed :: "bytes \<Rightarrow> ExecutionResult \<Rightarrow> call_log \<Rightarrow> bool" where
  "witnessed input res new \<longleftrightarrow> (\<exists>pre post ctl inp out err first hdr bs.
     new = pre @ post \<and> opened pre = [ctl, inp, out, err] \<and>
     stdout_output res = got_from (fst out) new \<and> stderr_output res = got_from (fst err) new \<and>
     prefix (put_on (snd inp) new) input \<and> got_from (fst ctl) new = first @ hdr @ bs \<and>
     length hdr = sizeof_header \<and> length bs = sizeof_terminated \<and>
     dec_header hdr = \<lparr>msg_type = msg_code Terminated, payload_size = word_of_nat sizeof_terminated\<rparr> \<and>
     reports res (dec_terminated bs))"

lemma witnessedI:
  assumes "opened pre = [ctl, inp, out, err]" "stdout_output res = got_from (fst out) (pre @ post)"
    "stderr_output res = got_from (fst err) (pre @ post)" "prefix (put_on (snd inp) (pre @ post)) input"
    "got_from (fst ctl) (pre @ post) = first @ hdr @ bs" "length hdr = sizeof_header" "length bs = sizeof_terminated"
    "dec_header hdr = \<lparr>msg_type = msg_code Terminated, payload_size = word_of_nat sizeof_terminated\<rparr>"
    "reports res (dec_terminated bs)"
  shows "witnessed input res (pre @ post)"
  unfolding witnessed_def by (intro exI conjI, rule refl) (rule assms)+

lemma run_parent_witnessed:
  assumes w: "well_connected K e" and run: "run_parent K e fresh_result s = Some (res, s')" and ok: "\<not> failure res"
  obtains new first hdr bs where "emits s new s'" "stdout_output res = got_from (stdout_r e) new"
     "stderr_output res = got_from (stderr_r e) new" "prefix (put_on (stdin_w e) new) (run_input e)"
     "got_from (control_r e) new = first @ hdr @ bs" "length hdr = sizeof_header" "length bs = sizeof_terminated"
     "dec_header hdr = \<lparr>msg_type = msg_code Terminated, payload_size = word_of_nat sizeof_terminated\<rparr>"
     "reports res (dec_terminated bs)"
proof -
  note f = well_connected_fit [OF w]
  from run_parent_core [OF f _ run ok] obtain before new p where
    c: "emits s (before @ new) s'" "\<forall>x \<in> set before. reads_from (control_r e) (fst x) \<or> (\<exists>fd. fst x = Close fd)"
    "agrees e p new" "converses e fresh_result p new" "all_closed p" "res = classify p" by auto
  have "distinct_fds e" using f by (simp add: fit_def)
  note silent = before_silent [OF c(2) this]
  from c(4,5) have "told e fresh_result p new" by (simp add: converses_def all_closed_def)
  then obtain hdr bs elapsed where t: "got_from (control_r e) new = hdr @ bs" "length hdr = sizeof_header"
     "length bs = sizeof_terminated"
     "dec_header hdr = \<lparr>msg_type = msg_code Terminated, payload_size = word_of_nat sizeof_terminated\<rparr>"
     "run_result p = reported_result fresh_result (termination_requested p) elapsed (dec_terminated bs)"
    unfolding told_def by blast
  let ?st = "wait_status (dec_terminated bs)"
  have ex: "WIFSIGNALED ?st \<Longrightarrow> \<not> WIFEXITED ?st" by (simp add: WIFSIGNALED_iff WIFEXITED_def)
  have "reports res (dec_terminated bs)"
    using c(6) t(5) ex by (auto simp: reports_def reported_result_def Let_def)
  moreover have "prefix (put_on (stdin_w e) new) (run_input e)" using c(3) input_sent_prefix unfolding agrees_def by blast
  ultimately show ?thesis using c(1,3,6) silent t(1-4) unfolding Let_def
    by (intro that [of "before @ new" "got_from (control_r e) before" hdr bs]) (simp_all add: agrees_def)
qed

lemma run_parent_blank:
  assumes "well_connected K e" "run_parent K e fresh_result s = Some (res, s')" "failure res"
  shows "blank res"
proof -
  have b: "blank fresh_result" by (simp add: blank_def)
  let ?s = "do_sys K (Close (snd (control_socket (run_fds e)))) s"
  obtain rc t where rc: "receive_message K (control_r e) sizeof_ready ?s = Some (rc, t)"
    using assms(2) unfolding run_parent_def Let_def by (auto elim!: bind_SomeE)
  show ?thesis
  proof (cases "\<exists>header pl. rc = Some (header, pl) \<and> msg_type header = msg_code Ready")
    case False
    then show ?thesis using assms(2) rc b unfolding run_parent_def Let_def
      by (cases rc) (auto elim!: bind_SomeE split: if_splits)
  next
    case True
    with assms(2) rc have io: "supervise_io K e fresh_result t = Some (res, s')" unfolding run_parent_def Let_def by auto
    note f = well_connected_fit [OF assms(1)]
    define s3 where "s3 = do_sys K (Close (fst (stdin_pipe (run_fds e)))) (do_sys K (Close (snd (stderr_pipe (run_fds e))))
        (do_sys K (Close (snd (stdout_pipe (run_fds e)))) t))"
    obtain p u where p: "(if length (run_input e) = 0 then close_stdin K e (initial_runner e fresh_result) s3
        else (initial_runner e fresh_result, s3)) = (p, u)" by fastforce
    have i: "run_inv e fresh_result s3 p u"
      using initial_inv [of fresh_result e s3 K] f p by (auto simp: fit_def split: if_splits)
    have un: "undecided p" using p b by (auto simp: initial_runner_def undecided_def close_stdin_def split: if_splits)
    from io obtain x v where x: "runner_loop K e p u = Some (x, v)"
      "(case x of Inl res \<Rightarrow> Some (res, v) | Inr p \<Rightarrow> conclude K e p v) = Some (res, s')"
      unfolding supervise_io_def Let_def s3_def [symmetric] p prod.case by (auto elim!: bind_SomeE)
    show ?thesis
    proof (cases x)
      case (Inl r)
      with x cautious_loop [OF x(1) un] show ?thesis by simp
    next
      case (Inr q)
      with runner_loop_sound [OF f i x(1)] have "supervisor_reaped q" by (auto simp: run_inv_def flags_ok_def all_closed_def)
      with x(2) Inr have "res = classify q" by (simp add: conclude_def)
      with assms(3) show ?thesis by (auto simp: failure_def classify_def Let_def split: if_splits)
    qed
  qed
qed

text \<open>The identifier and the \<open>SIGPIPE\<close> guard around the rest of the operation.\<close>

lemma run_entered:
  assumes "run_both K executable args input cfg s = Some (Returns res, s')"
  shows "\<exists>pre s1. emits s pre s1 \<and> (\<forall>x \<in> set pre. entry_quiet (fst x)) \<and> opened pre = [] \<and>
    (res = fresh_result\<lparr>state := RunnerFailed, status := RunnerFailure\<rparr> \<and> s' = s1 \<or>
     (\<exists>eid s2. run_forked K executable args input cfg fresh_result eid s1 = Some (Returns res, s2) \<and>
        s' = do_sys K (Sigaction SIGPIPE SIG_SAVED) s2))"
proof -
  obtain c s1 where 1: "sys K Clock s = (c, s1)" by fastforce
  obtain d s2 where 2: "sys K Getpid s1 = (d, s2)" by fastforce
  let ?s3 = "s2\<lparr>exec_counter := exec_counter s2 + 1\<rparr>"
  obtain r s4 where 4: "sys K (Sigaction SIGPIPE SIG_IGN) ?s3 = (r, s4)" by fastforce
  let ?pre = "[(Clock, c), (Getpid, d), (Sigaction SIGPIPE SIG_IGN, r)]"
  have "emits s ?pre s4" using sys_calls [OF 1] sys_calls [OF 2] sys_calls [OF 4] by (simp add: emits_def)
  moreover have "\<forall>x \<in> set ?pre. entry_quiet (fst x)" by (simp add: entry_quiet_def)
  moreover have "res = fresh_result\<lparr>state := RunnerFailed, status := RunnerFailure\<rparr> \<and> s' = s4 \<or>
     (\<exists>eid s2. run_forked K executable args input cfg fresh_result eid s4 = Some (Returns res, s2) \<and>
        s' = do_sys K (Sigaction SIGPIPE SIG_SAVED) s2)"
    using assms unfolding run_both_def generateExecutionId_def 1 2 prod.case Let_def 4
    by (auto elim!: bind_SomeE split: if_splits forked.splits) blast+
  ultimately show ?thesis by (intro exI [of _ ?pre] exI [of _ s4]) simp
qed

lemma run_Some: "run K executable args input cfg s = Some (res, s') \<longleftrightarrow>
  run_both K executable args input cfg s = Some (Returns res, s')"
  by (auto simp: run_def split: option.splits forked.splits prod.splits)

lemma run_outcome:
  assumes "honest K" "fresh_fds K held" "length input < 2 ^ 63" "run K executable args input cfg s = Some (res, s')"
  shows "if status res \<in> {RunnerFailure, SandboxFailure} then exit_code res = 1 \<and> \<not> terminated_by_signal res
    else \<exists>new. emits s new s' \<and> witnessed input res new"
proof -
  from run_entered [OF assms(4) [unfolded run_Some]] obtain pre s1 where
    pre: "emits s pre s1" "\<forall>x \<in> set pre. entry_quiet (fst x)" "opened pre = []"
    and or: "res = fresh_result\<lparr>state := RunnerFailed, status := RunnerFailure\<rparr> \<and> s' = s1 \<or>
     (\<exists>eid s2. run_forked K executable args input cfg fresh_result eid s1 = Some (Returns res, s2) \<and>
        s' = do_sys K (Sigaction SIGPIPE SIG_SAVED) s2)" by blast
  from or show ?thesis
  proof (elim disjE exE conjE)
    assume "res = fresh_result\<lparr>state := RunnerFailed, status := RunnerFailure\<rparr>"
    then show ?thesis by simp
  next
    fix eid s2 assume f: "run_forked K executable args input cfg fresh_result eid s1 = Some (Returns res, s2)"
      and s': "s' = do_sys K (Sigaction SIGPIPE SIG_SAVED) s2"
    from run_forked_returns [OF f assms(2)] show ?thesis
    proof (elim disjE exE conjE)
      assume "res = fresh_result\<lparr>state := RunnerFailed, status := RunnerFailure\<rparr>"
      then show ?thesis by simp
    next
      fix e mid t assume m: "emits s1 mid t" "\<forall>x \<in> set mid. entry_quiet (fst x)" "run_parent K e fresh_result t = Some (res, s2)"
        "opened mid = [control_socket (run_fds e), stdin_pipe (run_fds e), stdout_pipe (run_fds e), stderr_pipe (run_fds e)]"
        "all_distinct (run_fds e)" "run_input e = input"
      have w: "well_connected K e" using assms(1,3) m(5,6) by (simp add: well_connected_def)
      show ?thesis
      proof (cases "failure res")
        case True
        with run_parent_blank [OF w m(3)] show ?thesis by (auto simp: failure_def blank_def)
      next
        case False
        obtain new first hdr bs where
          n: "emits t new s2" "stdout_output res = got_from (stdout_r e) new" "stderr_output res = got_from (stderr_r e) new"
          "prefix (put_on (stdin_w e) new) (run_input e)" "got_from (control_r e) new = first @ hdr @ bs"
          "length hdr = sizeof_header" "length bs = sizeof_terminated"
          "dec_header hdr = \<lparr>msg_type = msg_code Terminated, payload_size = word_of_nat sizeof_terminated\<rparr>"
          "reports res (dec_terminated bs)"
          by (rule run_parent_witnessed [OF w m(3) False])
        let ?q = "(Sigaction SIGPIPE SIG_SAVED, fst (K (Sigaction SIGPIPE SIG_SAVED) (world s2)))"
        have "\<forall>x \<in> set [?q]. entry_quiet (fst x)" by (simp add: entry_quiet_def)
        note quiet = entry_quiet_log [OF pre(2)] entry_quiet_log [OF m(2)] entry_quiet_log [OF this]
        have "emits s ((pre @ mid) @ new @ [?q]) s'"
          using pre(1) m(1) n(1) by (simp add: s' emits_def)
        moreover have "witnessed input res ((pre @ mid) @ new @ [?q])"
        proof (rule witnessedI)
          show "opened (pre @ mid) = [control_socket (run_fds e), stdin_pipe (run_fds e), stdout_pipe (run_fds e), stderr_pipe (run_fds e)]"
            using m(4) pre(3) by simp
          show "got_from (control_r e) ((pre @ mid) @ new @ [?q]) = first @ hdr @ bs" using n(5) by (simp add: quiet)
          show "stdout_output res = got_from (stdout_r e) ((pre @ mid) @ new @ [?q])" using n(2) by (simp add: quiet)
          show "stderr_output res = got_from (stderr_r e) ((pre @ mid) @ new @ [?q])" using n(3) by (simp add: quiet)
          show "prefix (put_on (stdin_w e) ((pre @ mid) @ new @ [?q])) input" using n(4) m(6) by (simp add: quiet)
        qed (rule n)+
        ultimately show ?thesis using False by (auto simp: failure_def)
      qed
    qed
  qed
qed

text \<open>
  C10. \<open>ProcessRunner::run\<close>, from its call to its return. Over a kernel whose \<open>read\<close>, \<open>write\<close>, \<open>pipe\<close> and \<open>socketpair\<close>
  behave as documented, a result is either a runner or sandbox failure, and then still carries the exit code 1 and no
  signal, or every part of it is what the log of the run shows.
\<close>

theorem run_correct:
  assumes "honest K" "fresh_fds K held" "length input < 2 ^ 63" "run K executable args input cfg s = Some (res, s')"
  shows "if status res \<in> {RunnerFailure, SandboxFailure} then exit_code res = 1 \<and> \<not> terminated_by_signal res
    else \<exists>new. emits s new s' \<and> witnessed input res new"
  using assms by (rule run_outcome)

lemma run_both_no_fork:
  assumes "\<forall>w. rv (fst (K Fork w)) = - 1" "run_both K executable args input cfg s = Some (x, s')"
  shows "\<exists>res. x = Returns res"
proof -
  have "\<exists>res. y = Returns res" if "run_forked K executable args input cfg r0 eid t = Some (y, u)" for r0 eid t y u
    using that assms(1) unfolding run_forked_def Let_def by (auto simp: sys_evaluate split: if_splits)
  with assms(2) show ?thesis unfolding run_both_def Let_def
    by (auto elim!: bind_SomeE split: prod.splits if_splits forked.splits)
qed

text \<open>
  C32. A run that cannot start. Over a kernel that refuses to fork, whichever of the calls before the fork it refuses as
  well, \<open>ProcessRunner::run\<close> reports a runner failure and has closed every descriptor of the socket pair and the pipes
  it opened.
\<close>

theorem run_unstarted_closes:
  assumes "fresh_fds K held" "\<forall>w. rv (fst (K Fork w)) = - 1" "run_both K executable args input cfg s = Some (x, s')"
  shows "\<exists>new res. emits s new s' \<and> x = Returns res \<and> state res = RunnerFailed \<and> status res = RunnerFailure \<and>
    (\<forall>p \<in> set (opened new). fst p \<in> closed_fds new \<and> snd p \<in> closed_fds new)"
proof -
  obtain res where x: "x = Returns res" using assms(2,3) run_both_no_fork by blast
  with assms(3) have "run_both K executable args input cfg s = Some (Returns res, s')" by simp
  from run_entered [OF this] obtain pre s1 where
    pre: "emits s pre s1" "\<forall>x \<in> set pre. entry_quiet (fst x)" "opened pre = []"
    and or: "res = fresh_result\<lparr>state := RunnerFailed, status := RunnerFailure\<rparr> \<and> s' = s1 \<or>
     (\<exists>eid s2. run_forked K executable args input cfg fresh_result eid s1 = Some (Returns res, s2) \<and>
        s' = do_sys K (Sigaction SIGPIPE SIG_SAVED) s2)" by blast
  from or show ?thesis
  proof (elim disjE exE conjE)
    assume "res = fresh_result\<lparr>state := RunnerFailed, status := RunnerFailure\<rparr>" "s' = s1"
    with pre(1,3) x show ?thesis by (intro exI [of _ pre] exI [of _ res]) simp
  next
    fix eid s2 assume f: "run_forked K executable args input cfg fresh_result eid s1 = Some (Returns res, s2)"
      and s': "s' = do_sys K (Sigaction SIGPIPE SIG_SAVED) s2"
    from run_forked_returns [OF f assms(1)] show ?thesis
    proof (elim disjE exE conjE)
      fix mid assume m: "emits s1 mid s2" "res = fresh_result\<lparr>state := RunnerFailed, status := RunnerFailure\<rparr>"
        "\<forall>p \<in> set (opened mid). fst p \<in> closed_fds mid \<and> snd p \<in> closed_fds mid"
      let ?new = "pre @ mid @ [(Sigaction SIGPIPE SIG_SAVED, fst (K (Sigaction SIGPIPE SIG_SAVED) (world s2)))]"
      have "emits s ?new s'" using pre(1) m(1) by (simp add: s' emits_def)
      with m(2,3) pre(3) x show ?thesis by (intro exI [of _ ?new] exI [of _ res]) auto
    next
      fix e w assume "rv (fst (K Fork w)) = supervisor_pid e" "0 < supervisor_pid e"
      with assms(2) show ?thesis by simp
    qed
  qed
qed

section \<open>Execution identifiers\<close>

text \<open>
  An identifier is the clock shifted by sixteen bits, the low half of the pid shifted by eight, and the process's
  counter, exclusive-or'ed; zero is replaced by one.
\<close>

definition raw_id :: "u64 \<Rightarrow> u64 \<Rightarrow> u64 \<Rightarrow> u64" where
  "raw_id nanos pid counter = push_bit 16 nanos XOR push_bit 8 (pid AND 0xFFFF) XOR counter"

lemma small_bit: "unat (c :: u64) < 2 ^ k \<Longrightarrow> k \<le> i \<Longrightarrow> \<not> bit c i"
proof -
  assume a: "unat c < 2 ^ k" "k \<le> i"
  have "unat c < 2 ^ i" by (rule less_le_trans [OF a(1)]) (simp only: power_increasing [OF a(2)])
  then have "\<not> bit (unat c) i" by (simp add: bit_iff_odd)
  then show ?thesis by (simp add: bit_unsigned_iff)
qed

lemma raw_id_counter:
  assumes "unat c < 2 ^ 16" "unat c' < 2 ^ 16" "take_bit 16 (raw_id n p c) = take_bit 16 (raw_id n' p c')"
  shows "c = c'"
proof (rule bit_word_eqI)
  fix i assume "i < LENGTH(64)"
  show "bit c i \<longleftrightarrow> bit c' i"
  proof (cases "i < 16")
    case True
    have "bit (take_bit 16 (raw_id n p c)) i \<longleftrightarrow> bit (take_bit 16 (raw_id n' p c')) i" using assms(3) by simp
    with True show ?thesis by (auto simp: raw_id_def bit_take_bit_iff bit_xor_iff bit_push_bit_iff)
  next
    case False
    with small_bit [OF assms(1)] small_bit [OF assms(2)] show ?thesis by simp
  qed
qed

lemma raw_id_high:
  assumes "unat c < 2 ^ 16" "256 \<le> unat n mod 2 ^ 48"
  shows "\<exists>i. 16 \<le> i \<and> bit (raw_id n p c) i"
proof -
  have "drop_bit 8 (take_bit 48 n) \<noteq> 0"
  proof
    assume "drop_bit 8 (take_bit 48 n) = 0"
    then have "unat (drop_bit 8 (take_bit 48 n)) = 0" by (simp only: unsigned_0)
    moreover have "unat (drop_bit 8 (take_bit 48 n)) = (unat n mod 2 ^ 48) div 2 ^ 8"
      by (subst unsigned_drop_bit_eq, subst unsigned_take_bit_eq) (simp add: drop_bit_eq_div take_bit_eq_mod mod_mod_cancel)
    ultimately have "(unat n mod 2 ^ 48) div 2 ^ 8 = 0" by metis
    with assms(2) show False by (simp add: div_eq_0_iff)
  qed
  then obtain i where "bit (drop_bit 8 (take_bit 48 n)) i" by (metis bit_0_eq bit_eqI bot_apply bot_bool_def)
  then have i: "bit n (i + 8)" "i + 8 < 48" by (auto simp: bit_drop_bit_eq bit_take_bit_iff ac_simps)
  have "\<not> bit c (i + 24)" using small_bit [OF assms(1)] by simp
  moreover have "\<not> bit (push_bit 8 0xFFFF :: u64) (i + 24)" using small_bit [of "push_bit 8 0xFFFF" 24 "i + 24"] by simp
  ultimately have "bit (raw_id n p c) (i + 24)" using i
    by (simp add: raw_id_def bit_xor_iff bit_push_bit_iff bit_and_iff add.commute)
  then show ?thesis by (intro exI [of _ "i + 24"]) simp
qed

lemma make_id_raw:
  assumes "unat c < 2 ^ 16" "256 \<le> unat n mod 2 ^ 48"
  shows "make_id n p c = raw_id n p c" "raw_id n p c \<noteq> 0"
proof -
  show "raw_id n p c \<noteq> 0" using raw_id_high [OF assms, of p] by auto
  then show "make_id n p c = raw_id n p c" by (simp add: make_id_def raw_id_def Let_def)
qed

text \<open>
  C33. Execution identifiers. Two calls of \<open>generateExecutionId\<close> in one process, whatever happens between them, return
  different non-zero identifiers and so different cgroup directories, as long as the process has run fewer than 65536
  executions and the clock is not within 256 nanoseconds of a multiple of 2 to the 48th nanoseconds.
\<close>

theorem execution_ids_distinct:
  assumes "generateExecutionId K s = (a, s1)" "generateExecutionId K t = (b, t1)"
    and "exec_counter s \<noteq> exec_counter t" "unat (exec_counter s) < 2 ^ 16" "unat (exec_counter t) < 2 ^ 16"
    and "\<forall>w w'. fst (K Getpid w) = fst (K Getpid w')"
    and "\<forall>w. 256 \<le> unat (word_of_int (rv (fst (K Clock w))) :: u64) mod 2 ^ 48"
  shows "a \<noteq> b \<and> a \<noteq> 0 \<and> b \<noteq> 0 \<and> exec_counter s1 = exec_counter s + 1 \<and>
    cgroup_dir a \<noteq> cgroup_dir b \<and> execution_cgroup_path a = cgroup_dir a"
proof -
  obtain n u where n: "sys K Clock s = (n, u)" by fastforce
  obtain n' u' where n': "sys K Clock t = (n', u')" by fastforce
  obtain p v where p: "sys K Getpid u = (p, v)" by fastforce
  obtain p' v' where p': "sys K Getpid u' = (p', v')" by fastforce
  have cs: "exec_counter u = exec_counter s" "exec_counter v = exec_counter s" "exec_counter v' = exec_counter t"
    using n n' p p' by (metis snd_conv sys_simps(4))+
  have pp: "p' = p" using p p' assms(6) by (metis fst_conv sys_simps(1))
  have clk: "256 \<le> unat (word_of_int (rv n) :: u64) mod 2 ^ 48" "256 \<le> unat (word_of_int (rv n') :: u64) mod 2 ^ 48"
    using n n' assms(7) by (metis fst_conv sys_simps(1))+
  let ?a = "raw_id (word_of_int (rv n)) (word_of_int (rv p)) (exec_counter s)"
  let ?b = "raw_id (word_of_int (rv n')) (word_of_int (rv p)) (exec_counter t)"
  have ab: "a = ?a" "b = ?b" "exec_counter s1 = exec_counter s + 1"
    using assms(1,2) make_id_raw(1) [OF assms(4) clk(1)] make_id_raw(1) [OF assms(5) clk(2)]
    by (auto simp: generateExecutionId_def n n' p p' cs pp)
  have "?a \<noteq> ?b" using raw_id_counter [OF assms(4,5)] assms(3) by metis
  moreover have "cgroup_dir x \<noteq> cgroup_dir y" if "x \<noteq> y" for x y
    using that by (simp add: cgroup_dir_def to_decimal_inject flip: word_unat_eq_iff)
  ultimately show ?thesis using ab make_id_raw(2) [OF assms(4) clk(1)] make_id_raw(2) [OF assms(5) clk(2)]
    by (simp add: execution_cgroup_path_def cgroup_dir_def)
qed


section \<open>A concrete world\<close>

text \<open>
  A kernel that hands out descriptors in order. Each \<open>fork\<close> starts a supervisor whose messages wait in the control
  socket and a submission that prints one byte; sockets and pipes are told apart by their descriptor modulo eight.
\<close>

fun print_kernel :: "(nat \<times> bytes \<times> bytes) kernel" where
  "print_kernel (Write fd bs) w = (Ret (length bs), w)"
| "print_kernel Socketpair (k, c, out) = (Fds k (Suc k), (k + 2, c, out))"
| "print_kernel Pipe (k, c, out) = (Fds k (Suc k), (k + 2, c, out))"
| "print_kernel Fork (k, c, out) = (Ret 100, (k, demo_message, [66]))"
| "print_kernel (Read fd n) (k, c, out) =
     (if fd mod 8 = 3 then (Data (take n c), (k, drop n c, out))
      else if fd mod 8 = 7 then (Data (take n out), (k, c, drop n out)) else (Data [], (k, c, out)))"
| "print_kernel (Poll fds t) (k, c, out) = (Events 1 (if out \<noteq> [] then [0, 1, 0, 0] else [0, 0, 0, 1]), (k, c, out))"
| "print_kernel (Waitpid pid m) w = (Waited (nat pid) 0 zero_rusage, w)"
| "print_kernel _ w = (Ret 0, w)"

lemma print_honest: "honest print_kernel"
  unfolding honest_def by auto

lemma print_fresh: "fresh_fds print_kernel (\<lambda>(k, c, out). {0..<int k})"
  unfolding fresh_fds_def by auto

lemma print_ready:
  "world s = (k, demo_message, out) \<Longrightarrow> fd mod 8 = 3 \<Longrightarrow> \<exists>s'. receive_message print_kernel fd 16 s =
     Some (Some (\<lparr>msg_type = msg_code Ready, payload_size = 16\<rparr>,
       enc_ready \<lparr>ready_host_pid = 101, ready_namespace_pid = 1, ready_execution_id = 0\<rparr>), s') \<and>
     world s' = (k, demo_rest, out)"
  by (simp add: demo_message_def demo_rest_def receive_message_def read_all_def read_loop_unfold sys_eval sizeof_header_def
    cong: demo_congs)

definition listening :: "runner \<Rightarrow> bool" where
  "listening p \<longleftrightarrow> \<not> submission_finished p \<and> \<not> termination_requested p \<and> control_channel_open p \<and> stdout_open p \<and>
     run_result p = fresh_result"

lemma print_round_output:
  assumes "world s = (k, demo_rest, [66])" "listening p" "stdout_r e mod 8 = 7" "0 < deadline e"
  shows "\<exists>s'. runner_round print_kernel e p s = Some (Inr (p\<lparr>stdout_read := stdout_read p @ [66]\<rparr>), s') \<and> world s' = (k, demo_rest, [])"
  using assms by (simp add: runner_round_def enforce_deadline_def listening_def and_then_def all_closed_def sys_eval
    runner_control_def runner_stdin_def runner_stdout_def runner_stderr_def has_flag_def IO_BUFFER_SIZE_def cong: demo_congs)

lemma print_round_terminated:
  assumes "world s = (k, demo_rest, [])" "listening p" "control_r e mod 8 = 3" "0 < deadline e" "supervisor_pid e = 100"
  shows "\<exists>q s'. runner_round print_kernel e p s = Some (Inr q, s') \<and> all_closed q \<and> supervisor_reaped q \<and>
     run_status q = 0 \<and> stdout_read q = stdout_read p \<and> exit_code (run_result q) = 0 \<and> \<not> terminated_by_signal (run_result q) \<and>
     \<not> wall_time_limit_exceeded (run_result q) \<and> world s' = (k, [], [])"
  using assms
  by (simp add: demo_rest_def runner_round_def enforce_deadline_def listening_def and_then_def all_closed_def sys_eval
    runner_control_def runner_stdin_def runner_stdout_def runner_stderr_def has_flag_def handle_terminated_def
    finish_supervisor_terminal_def finalize_resource_usage_def finalize_status_def close_pipes_def when_open_def close_defs
    read_all_def read_loop_unfold sizeof_header_def sizeof_terminated_def cong: demo_congs)


lemma print_parent:
  assumes w: "world s = (k, demo_message, [66])" and e: "control_r e mod 8 = 3" "stdout_r e mod 8 = 7" "0 < deadline e" "supervisor_pid e = 100"
  shows "\<exists>res s'. run_parent print_kernel e fresh_result s = Some (res, s') \<and> status res = Completed \<and> exit_code res = 0 \<and>
    \<not> terminated_by_signal res \<and> stdout_output res = [66] \<and> world s' = (k, [], [])"
proof -
  let ?fds = "run_fds e"
  let ?s = "do_sys print_kernel (Close (snd (control_socket ?fds))) s"
  have "world ?s = (k, demo_message, [66])" using w by (simp add: sys_eval)
  from print_ready [OF this e(1)] obtain s1 where s1: "receive_message print_kernel (control_r e) 16 ?s =
      Some (Some (\<lparr>msg_type = msg_code Ready, payload_size = 16\<rparr>,
       enc_ready \<lparr>ready_host_pid = 101, ready_namespace_pid = 1, ready_execution_id = 0\<rparr>), s1)"
     "world s1 = (k, demo_rest, [66])" by blast
  define s2 where "s2 = do_sys print_kernel (Close (fst (stdin_pipe ?fds))) (do_sys print_kernel (Close (snd (stderr_pipe ?fds)))
      (do_sys print_kernel (Close (snd (stdout_pipe ?fds))) s1))"
  obtain p s3 where p: "(if length (run_input e) = 0 then close_stdin print_kernel e (initial_runner e fresh_result) s2
      else (initial_runner e fresh_result, s2)) = (p, s3)" by fastforce
  have s3: "world s3 = (k, demo_rest, [66])" "listening p" "stdout_read p = []"
    using p s1(2) by (auto simp: s2_def listening_def initial_runner_def close_stdin_def sys_eval split: if_splits)
  let ?q = "p\<lparr>stdout_read := [66]\<rparr>"
  from print_round_output [OF s3(1,2) e(2,3)] s3(3) obtain s4 where s4: "runner_round print_kernel e p s3 = Some (Inr ?q, s4)"
    "world s4 = (k, demo_rest, [])" by auto
  have "listening ?q" using s3(2) by (simp add: listening_def)
  from print_round_terminated [OF s4(2) this e(1,3,4)] obtain q s5 where
    s5: "runner_round print_kernel e ?q s4 = Some (Inr q, s5)" and q: "all_closed q"
     "supervisor_reaped q" "run_status q = 0" "stdout_read q = [66]" "exit_code (run_result q) = 0"
     "\<not> terminated_by_signal (run_result q)" "\<not> wall_time_limit_exceeded (run_result q)" "world s5 = (k, [], [])" by auto
  have open_p: "\<not> all_closed p" "\<not> all_closed ?q" using s3(2) by (simp_all add: all_closed_def listening_def)
  have "runner_loop print_kernel e p s3 = Some (Inr q, s5)"
    using open_p q(1) s4(1) s5 by (simp add: runner_loop.simps [of _ _ p] runner_loop.simps [of _ _ ?q] runner_loop.simps [of _ _ q])
  then have "supervise_io print_kernel e fresh_result s1 = Some (classify q, s5)"
    using q(2) unfolding supervise_io_def Let_def s2_def [symmetric] p prod.case by (simp add: conclude_def)
  then have "run_parent print_kernel e fresh_result s = Some (classify q, s5)"
    using s1(1) by (simp add: run_parent_def sizeof_ready_def Let_def)
  moreover have "status (classify q) = Completed" using q(3,7) by (simp add: classify_def)
  ultimately show ?thesis using q by simp
qed

lemma print_run:
  assumes w: "world s = (k, c, out)" and k: "k mod 8 = 3" and lim: "0 < wall_limit (limit cfg)"
  shows "\<exists>res s'. run print_kernel executable args input cfg s = Some (res, s') \<and> status res = Completed \<and> exit_code res = 0 \<and>
    \<not> terminated_by_signal res \<and> stdout_output res = [66] \<and> world s' = (k + 8, [], [])"
proof -
  obtain eid s1 where g: "generateExecutionId print_kernel s = (eid, s1)" "world s1 = (k, c, out)"
    using w by (simp add: generateExecutionId_def sys_eval)
  let ?s2 = "do_sys print_kernel (Sigaction SIGPIPE SIG_IGN) s1"
  let ?fds = "\<lparr>control_socket = (int k, int k + 1), stdin_pipe = (int k + 2, int k + 3), stdout_pipe = (int k + 4, int k + 5),
     stderr_pipe = (int k + 6, int k + 7)\<rparr>"
  let ?e = "\<lparr>run_fds = ?fds, supervisor_pid = 100, run_execution_id = eid, start_time = 0,
         deadline = wall_limit (limit cfg) * 1000000, run_input = input\<rparr>"
  let ?s3 = "do_sys print_kernel Fork (do_sys print_kernel Clock (do_sys print_kernel Pipe (do_sys print_kernel Pipe
     (do_sys print_kernel Pipe (do_sys print_kernel Socketpair ?s2)))))"
  have w3: "world ?s3 = (k + 8, demo_message, [66])" using g(2) by (simp add: sys_eval)
  have "int k mod 8 = 3" "(int k + 4) mod 8 = 7" using k by presburger+
  with print_parent [OF w3, of ?e] lim obtain res s4 where r: "run_parent print_kernel ?e fresh_result ?s3 = Some (res, s4)"
    "status res = Completed" "exit_code res = 0" "\<not> terminated_by_signal res" "stdout_output res = [66]" "world s4 = (k + 8, [], [])"
    by auto
  have "run_forked print_kernel executable args input cfg fresh_result eid ?s2 = Some (Returns res, s4)"
    using g(2) r(1) by (simp add: run_forked_def sys_eval add.commute)
  then have "run print_kernel executable args input cfg s = Some (res, do_sys print_kernel (Sigaction SIGPIPE SIG_SAVED) s4)"
    using g by (simp add: run_Some run_both_def sys_eval)
  with r show ?thesis by (simp add: sys_eval)
qed


abbreviation (input) brief_config :: ExecutionConfig where
  "brief_config \<equiv> \<lparr>limit = \<lparr>cpu_limit = 1, wall_limit = 1000, memory_limit = 0\<rparr>, sandbox_config = default_SandboxConfig\<rparr>"

theorem run_correct_witness:
  "\<exists>res s' new. run print_kernel ''prog'' [] [65] brief_config (boot (3, [], [])) = Some (res, s') \<and>
     emits (boot (3, [], [])) new s' \<and> witnessed [65] res new \<and> stdout_output res = [66]"
proof -
  obtain res s' where r: "run print_kernel ''prog'' [] [65] brief_config (boot (3, [], [])) = Some (res, s')"
    "status res = Completed" "stdout_output res = [66]"
    using print_run [of "boot (3, [], [])" 3 "[]" "[]" brief_config "''prog''" "[]" "[65]"] by (auto simp: boot_simps)
  from run_correct [OF print_honest print_fresh _ r(1)] r show ?thesis by auto
qed

text \<open>A kernel that refuses to fork.\<close>

fun stingy_kernel :: "nat kernel" where
  "stingy_kernel Socketpair k = (Fds k (Suc k), k + 2)"
| "stingy_kernel Pipe k = (Fds k (Suc k), k + 2)"
| "stingy_kernel Fork k = (Fail 11, k)"
| "stingy_kernel _ k = (Ret 0, k)"

theorem run_unstarted_closes_witness:
  "\<exists>x s' new res. run_both stingy_kernel ''prog'' [] [65] brief_config (boot 3) = Some (x, s') \<and>
     emits (boot 3) new s' \<and> x = Returns res \<and> status res = RunnerFailure \<and>
     (\<forall>p \<in> set (opened new). fst p \<in> closed_fds new \<and> snd p \<in> closed_fds new)"
proof -
  have f: "fresh_fds stingy_kernel (\<lambda>k. {0..<int k})" unfolding fresh_fds_def by auto
  obtain x s' where x: "run_both stingy_kernel ''prog'' [] [65] brief_config (boot 3) = Some (x, s')"
    by (simp add: run_both_def run_forked_def generateExecutionId_def sys_eval)
  from run_unstarted_closes [OF f _ x] x show ?thesis by auto
qed

theorem execution_ids_distinct_witness:
  "\<exists>a b s1 t1. generateExecutionId (\<lambda>c w. (Ret 1000, w)) (boot ()) = (a, s1) \<and>
     generateExecutionId (\<lambda>c w. (Ret 1000, w)) s1 = (b, t1) \<and> a \<noteq> b \<and> cgroup_dir a \<noteq> cgroup_dir b"
proof -
  let ?K = "\<lambda>(c :: syscall) (w :: unit). (Ret 1000, w)"
  obtain a s1 where a: "generateExecutionId ?K (boot ()) = (a, s1)" by fastforce
  then have c: "exec_counter s1 = 2" by (auto simp: generateExecutionId_def sys_def boot_def)
  obtain b t1 where b: "generateExecutionId ?K s1 = (b, t1)" by fastforce
  have "exec_counter (boot ()) = 1" by (simp add: boot_simps)
  with execution_ids_distinct [OF a b] c a b show ?thesis by simp
qed

end
