(* ===== verification/Judging.thy ===== *)
theory Judging
  imports Execution_Types
begin

text \<open>
  \<open>include/judge\<close> and \<open>src/judge/judge.cpp\<close>. The source declares \<open>JudgeResult result;\<close> without an
  initialiser: its \<open>verdict\<close> starts as whatever the memory held, which is the parameter \<open>junk\<close>.
\<close>

definition evaluate :: "Verdict \<Rightarrow> judge" where
  "evaluate junk execution expected_output =
     (let result = \<lparr>verdict = junk, message = []\<rparr> in
      if terminated_by_signal execution then
        (if wall_time_limit_exceeded execution then result\<lparr>verdict := TimeLimitExceeded\<rparr>
         else if signal_number execution = uint SIGXCPU then result\<lparr>verdict := TimeLimitExceeded\<rparr>
         else if signal_number execution = uint SIGSEGV then result\<lparr>verdict := RuntimeError\<rparr>
         else result)
      else if exit_code execution \<noteq> 0 then result\<lparr>verdict := RuntimeError\<rparr>
      else if stdout_output execution \<noteq> expected_output then result\<lparr>verdict := WrongAnswer\<rparr>
      else result\<lparr>verdict := Accepted\<rparr>)"

text \<open>The runs on which the judge assigns a verdict: all but those killed by an unlisted signal.\<close>

definition classified :: "ExecutionResult \<Rightarrow> bool" where
  "classified execution \<longleftrightarrow> (terminated_by_signal execution \<longrightarrow>
     wall_time_limit_exceeded execution \<or> signal_number execution \<in> {uint SIGXCPU, uint SIGSEGV})"

section \<open>The judge's contract\<close>

text \<open>
  What a client of \<open>IJudge\<close> relies on: on a run the judge can classify, the verdict is \<open>Accepted\<close>
  exactly for a submission that exited with zero and printed the expected output.
\<close>

locale sound_judge =
  fixes judge :: judge
    and judges :: "ExecutionResult \<Rightarrow> bool"
  assumes accepted_iff: "judges execution \<Longrightarrow>
    verdict (judge execution expected) = Accepted \<longleftrightarrow>
      \<not> terminated_by_signal execution \<and> exit_code execution = 0 \<and> stdout_output execution = expected"
begin

lemma rejected: "judges execution \<Longrightarrow> stdout_output execution \<noteq> expected \<Longrightarrow>
  verdict (judge execution expected) \<noteq> Accepted"
  by (simp add: accepted_iff)

lemma same_run_same_expectation: "judges execution \<Longrightarrow> verdict (judge execution a) = Accepted \<Longrightarrow>
  verdict (judge execution b) = Accepted \<Longrightarrow> a = b"
  by (simp add: accepted_iff)

end

interpretation judge: sound_judge "evaluate junk" classified for junk
  by unfold_locales (auto simp: evaluate_def classified_def Let_def)

text \<open>
  C22. When the judge accepts. The verdict is \<open>Accepted\<close> for a run that was not killed by a signal, exited with zero
  and printed the expected bytes, and in one other case only: the run was killed by a signal the judge does not
  look at, and the verdict the code never assigned happened to hold \<open>Accepted\<close> already.
\<close>

theorem judge_accepts_iff:
  "verdict (evaluate junk execution expected) = Accepted \<longleftrightarrow>
     \<not> terminated_by_signal execution \<and> exit_code execution = 0 \<and> stdout_output execution = expected \<or>
     terminated_by_signal execution \<and> \<not> wall_time_limit_exceeded execution \<and>
       signal_number execution \<notin> {uint SIGXCPU, uint SIGSEGV} \<and> junk = Accepted"
proof (cases "classified execution")
  case True
  then show ?thesis by (auto simp: judge.accepted_iff classified_def)
next
  case False
  then show ?thesis by (auto simp: evaluate_def classified_def Let_def)
qed

text \<open>
  C23. The judge's verdict depends on the uninitialised memory exactly for the runs killed by a signal
  other than \<open>SIGXCPU\<close> and \<open>SIGSEGV\<close> within the wall-clock limit: an aborted or memory-limited submission can
  be reported with any verdict.
\<close>

theorem judge_undetermined_iff:
  "(\<exists>a b. evaluate a execution expected \<noteq> evaluate b execution expected) \<longleftrightarrow>
     terminated_by_signal execution \<and> \<not> wall_time_limit_exceeded execution \<and>
     signal_number execution \<notin> {uint SIGXCPU, uint SIGSEGV}"
proof -
  have "evaluate Accepted execution expected \<noteq> evaluate WrongAnswer execution expected"
    if "\<not> classified execution"
    using that by (auto simp: evaluate_def classified_def Let_def)
  moreover have "evaluate a execution expected = evaluate b execution expected"
    if "classified execution" for a b
    using that by (auto simp: evaluate_def classified_def Let_def)
  ultimately show ?thesis by (auto simp: classified_def)
qed

end
