(* ===== verification/Test_Suite.thy ===== *)
theory Test_Suite
  imports Execution_Types
begin

text \<open>
  \<open>include/testcase\<close> and \<open>src/testcase/testsuite.cpp\<close>: a test suite is a vector of cases; reading
  one out of range throws.
\<close>

record TestCase =
  case_input :: bytes
  expected_output :: bytes

record TestSuite =
  test_cases :: "TestCase list"

datatype suite_error = out_of_range string

definition empty_suite :: TestSuite where
  "empty_suite = \<lparr>test_cases = []\<rparr>"

definition getTestCase :: "TestSuite \<Rightarrow> nat \<Rightarrow> suite_error + TestCase" where
  "getTestCase suite index =
     (if index \<ge> length (test_cases suite) then Inl (out_of_range ''invalid index'')
      else Inr (test_cases suite ! index))"

definition suite_size :: "TestSuite \<Rightarrow> nat" where
  "suite_size suite = length (test_cases suite)"

definition addTestCase :: "TestCase \<Rightarrow> TestSuite \<Rightarrow> TestSuite" where
  "addTestCase c suite = suite\<lparr>test_cases := test_cases suite @ [c]\<rparr>"

text \<open>The laws of a sequence that is appended to and read by index.\<close>

locale append_sequence =
  fixes empty_seq :: 's
    and append_item :: "'c \<Rightarrow> 's \<Rightarrow> 's"
    and get_item :: "'s \<Rightarrow> nat \<Rightarrow> 'e + 'c"
    and count :: "'s \<Rightarrow> nat"
  assumes count_empty: "count empty_seq = 0"
    and count_append: "count (append_item c s) = Suc (count s)"
    and get_appended: "get_item (append_item c s) (count s) = Inr c"
    and get_earlier: "i < count s \<Longrightarrow> get_item (append_item c s) i = get_item s i"
    and get_beyond: "count s \<le> i \<Longrightarrow> \<exists>e. get_item s i = Inl e"
begin

definition build :: "'c list \<Rightarrow> 's" where
  "build cs = fold append_item cs empty_seq"

lemma count_fold: "count (fold append_item cs s) = count s + length cs"
  by (induction cs arbitrary: s) (auto simp: count_append)

lemma get_fold_earlier: "i < count s \<Longrightarrow> get_item (fold append_item cs s) i = get_item s i"
  by (induction cs arbitrary: s) (auto simp: get_earlier count_append)

lemma get_fold: "i < length cs \<Longrightarrow> get_item (fold append_item cs s) (count s + i) = Inr (cs ! i)"
proof (induction cs arbitrary: s i)
  case (Cons c cs)
  show ?case
  proof (cases i)
    case 0
    then show ?thesis by (simp add: get_fold_earlier count_append get_appended)
  next
    case (Suc k)
    with Cons.IH [of k "append_item c s"] Cons.prems show ?thesis by (simp add: count_append)
  qed
qed simp

lemma get_build: "get_item (build cs) i = Inr c \<longleftrightarrow> i < length cs \<and> cs ! i = c"
proof (cases "i < length cs")
  case True
  with get_fold [of i cs empty_seq] show ?thesis by (simp add: build_def count_empty)
next
  case False
  with get_beyond [of "build cs" i] show ?thesis by (auto simp: build_def count_fold count_empty)
qed

end

interpretation suite: append_sequence empty_suite addTestCase getTestCase suite_size
  by unfold_locales
    (simp_all add: empty_suite_def addTestCase_def getTestCase_def suite_size_def nth_append)

text \<open>
  C36. A suite built by adding cases one after the other returns case \<open>i\<close> for every index below its size,
  in the order of addition, and throws \<open>std::out_of_range\<close> for every other index.
\<close>

theorem suite_roundtrip:
  "getTestCase (fold addTestCase cs empty_suite) i =
     (if i < length cs then Inr (cs ! i) else Inl (out_of_range ''invalid index''))"
proof (cases "i < length cs")
  case True
  then have "getTestCase (suite.build cs) i = Inr (cs ! i)" by (simp add: suite.get_build)
  with True show ?thesis by (simp add: suite.build_def)
next
  case False
  have "suite_size (fold addTestCase cs empty_suite) = length cs"
    using suite.count_fold [of cs empty_suite] by (simp add: suite.count_empty)
  with False show ?thesis by (simp add: getTestCase_def suite_size_def)
qed

end
