(* ===== verification/Test_Runner.thy ===== *)
theory Test_Runner
  imports Judging Test_Suite
begin

text \<open>
  \<open>include/testrunner\<close> and \<open>src/testrunner/testrunner.cpp\<close>: run a submission on the cases of a
  suite until one is not accepted. The runner and the judge are the interfaces \<open>IProcessRunner\<close> and
  \<open>IJudge\<close> the class holds references to.
\<close>

record TestRunnerResult =
  failed_test_index :: "nat option"
  failed_execution_result :: "ExecutionResult option"
  failed_judge_result :: "JudgeResult option"

definition no_failure :: TestRunnerResult where
  "no_failure = \<lparr>failed_test_index = None, failed_execution_result = None, failed_judge_result = None\<rparr>"

text \<open>The loop from index \<open>i\<close>; an exception of \<open>getTestCase\<close> leaves it.\<close>

function test_loop ::
  "'s process_runner \<Rightarrow> judge \<Rightarrow> string \<Rightarrow> TestSuite \<Rightarrow> ExecutionConfig \<Rightarrow> nat \<Rightarrow> 's
     \<Rightarrow> ((suite_error + TestRunnerResult) \<times> 's) option"
where
  "test_loop runner judge executable suite cfg i s =
     (if i < suite_size suite then
        (case getTestCase suite i of
           Inl error \<Rightarrow> Some (Inl error, s)
         | Inr test_case \<Rightarrow>
             (case runner executable [] (case_input test_case) cfg s of
                None \<Rightarrow> None
              | Some (execution, s) \<Rightarrow>
                  let judged = judge execution (expected_output test_case) in
                  if verdict judged \<noteq> Accepted then
                    Some (Inr \<lparr>failed_test_index = Some i, failed_execution_result = Some execution,
                            failed_judge_result = Some judged\<rparr>, s)
                  else test_loop runner judge executable suite cfg (Suc i) s))
      else Some (Inr no_failure, s))"
  by pat_completeness auto

termination
  by (relation "measure (\<lambda>(runner, judge, executable, suite, cfg, i, s). suite_size suite - i)") auto

declare test_loop.simps [simp del]

definition run_tests ::
  "'s process_runner \<Rightarrow> judge \<Rightarrow> string \<Rightarrow> TestSuite \<Rightarrow> ExecutionConfig \<Rightarrow> 's
     \<Rightarrow> ((suite_error + TestRunnerResult) \<times> 's) option"
where
  "run_tests runner judge executable suite cfg s = test_loop runner judge executable suite cfg 0 s"

section \<open>What the loop computes\<close>

text \<open>The specification: run a list of cases one after the other, whatever they print.\<close>

fun run_cases ::
  "'s process_runner \<Rightarrow> string \<Rightarrow> ExecutionConfig \<Rightarrow> TestCase list \<Rightarrow> 's \<Rightarrow> (ExecutionResult list \<times> 's) option"
where
  "run_cases runner executable cfg [] s = Some ([], s)"
| "run_cases runner executable cfg (c # cs) s =
     (case runner executable [] (case_input c) cfg s of
        None \<Rightarrow> None
      | Some (execution, s) \<Rightarrow> map_option (apfst (Cons execution)) (run_cases runner executable cfg cs s))"

text \<open>
  \<open>outcome\<close> says of the executions of a prefix of the suite what the result must be: all cases were run and
  accepted, or all but the last were accepted and the last was not.
\<close>

definition accepts_case :: "judge \<Rightarrow> TestCase \<Rightarrow> ExecutionResult \<Rightarrow> bool" where
  "accepts_case judge c execution \<longleftrightarrow> verdict (judge execution (expected_output c)) = Accepted"

definition outcome :: "judge \<Rightarrow> TestCase list \<Rightarrow> ExecutionResult list \<Rightarrow> TestRunnerResult \<Rightarrow> bool" where
  "outcome judge cs executions res \<longleftrightarrow>
     (case failed_test_index res of
        None \<Rightarrow> res = no_failure \<and> length executions = length cs \<and> list_all2 (accepts_case judge) cs executions
      | Some i \<Rightarrow> i < length cs \<and> length executions = Suc i \<and>
          list_all2 (accepts_case judge) (take i cs) (take i executions) \<and>
          \<not> accepts_case judge (cs ! i) (executions ! i) \<and>
          failed_execution_result res = Some (executions ! i) \<and>
          failed_judge_result res = Some (judge (executions ! i) (expected_output (cs ! i))))"

definition shift :: "nat \<Rightarrow> TestRunnerResult \<Rightarrow> TestRunnerResult" where
  "shift k res = res\<lparr>failed_test_index := map_option ((+) k) (failed_test_index res)\<rparr>"

lemma shift_no_failure [simp]: "shift k no_failure = no_failure"
  by (simp add: shift_def no_failure_def)

lemma outcome_Cons:
  assumes "accepts_case judge c execution" "outcome judge cs executions res"
  shows "outcome judge (c # cs) (execution # executions) (shift 1 res)"
  using assms by (auto simp: outcome_def shift_def split: option.splits)

lemma outcome_failed:
  "\<not> accepts_case judge c execution \<Longrightarrow> outcome judge (c # cs) [execution]
     \<lparr>failed_test_index = Some 0, failed_execution_result = Some execution,
      failed_judge_result = Some (judge execution (expected_output c))\<rparr>"
  by (simp add: outcome_def)

lemma shift_shift: "shift k (shift (Suc 0) res) = shift (Suc k) res"
  by (cases "failed_test_index res") (simp_all add: shift_def)

text \<open>From index \<open>i\<close> on, the loop runs a prefix of the remaining cases and returns their outcome.\<close>

lemma test_loop_outcome:
  assumes "test_loop runner judge executable suite cfg i s = Some (x, s')" "i \<le> suite_size suite"
  shows "\<exists>executions res. x = Inr (shift i res) \<and>
     outcome judge (drop i (test_cases suite)) executions res \<and>
     run_cases runner executable cfg (take (length executions) (drop i (test_cases suite))) s
       = Some (executions, s')"
  using assms
proof (induction "suite_size suite - i" arbitrary: i s)
  case 0
  then have "i = suite_size suite" by simp
  with 0 show ?case
    by (intro exI [of _ "[]"] exI [of _ no_failure])
       (auto simp: test_loop.simps outcome_def no_failure_def shift_def suite_size_def)
next
  case (Suc n)
  define c where "c = test_cases suite ! i"
  have i: "i < length (test_cases suite)" using Suc.hyps(2) by (simp add: suite_size_def)
  have drop: "drop i (test_cases suite) = c # drop (Suc i) (test_cases suite)"
    using i by (simp add: c_def Cons_nth_drop_Suc)
  obtain execution s1 where run: "runner executable [] (case_input c) cfg s = Some (execution, s1)"
    using Suc.prems(1) i
    by (cases "runner executable [] (case_input c) cfg s")
       (auto simp: test_loop.simps [of _ _ _ _ _ i] getTestCase_def suite_size_def c_def)
  show ?case
  proof (cases "accepts_case judge c execution")
    case False
    with Suc.prems(1) i run have "s' = s1" and x: "x = Inr (shift i \<lparr>failed_test_index = Some 0,
       failed_execution_result = Some execution,
       failed_judge_result = Some (judge execution (expected_output c))\<rparr>)"
      by (auto simp: test_loop.simps [of _ _ _ _ _ i] getTestCase_def suite_size_def c_def
        Let_def accepts_case_def shift_def)
    with False run drop show ?thesis
      using outcome_failed [OF False] by (intro exI [of _ "[execution]"] exI) auto
  next
    case True
    with Suc.prems(1) i run
    have "test_loop runner judge executable suite cfg (Suc i) s1 = Some (x, s')"
      by (simp add: test_loop.simps [of _ _ _ _ _ i] getTestCase_def suite_size_def c_def
        Let_def accepts_case_def)
    moreover have "n = suite_size suite - Suc i" "Suc i \<le> suite_size suite"
      using Suc.hyps(2) i by (simp_all add: suite_size_def)
    ultimately obtain executions res where
      IH: "x = Inr (shift (Suc i) res)"
      "outcome judge (drop (Suc i) (test_cases suite)) executions res"
      "run_cases runner executable cfg (take (length executions) (drop (Suc i) (test_cases suite))) s1
         = Some (executions, s')"
      using Suc.hyps(1) by blast
    from IH outcome_Cons [OF True IH(2)] run drop show ?thesis
      by (intro exI [of _ "execution # executions"] exI [of _ "shift 1 res"])
         (simp add: shift_shift)
  qed
qed

lemma shift_0 [simp]: "shift 0 res = res"
  by (cases res; cases "failed_test_index res") (simp_all add: shift_def)

text \<open>
  C21. When \<open>TestRunner::run\<close> returns, it has thrown no exception and has run exactly a prefix of the
  suite, in order: all cases, each accepted, and the result reports no failure; or up to the first case that is
  not accepted, whose index, execution and judgement the result holds.
\<close>

theorem run_tests_outcome:
  assumes "run_tests runner judge executable suite cfg s = Some (x, s')"
  shows "\<exists>executions res. x = Inr res \<and> outcome judge (test_cases suite) executions res \<and>
     run_cases runner executable cfg (take (length executions) (test_cases suite)) s = Some (executions, s')"
  using test_loop_outcome [where i = 0] assms unfolding run_tests_def by fastforce

text \<open>A runner that does not run anything: the submission echoes its input.\<close>

definition echo_runner :: "unit process_runner" where
  "echo_runner executable args input cfg s =
     Some (default_ExecutionResult\<lparr>exit_code := 0, stdout_output := input\<rparr>, s)"

definition demo_suite :: TestSuite where
  "demo_suite = \<lparr>test_cases = [\<lparr>case_input = [1], expected_output = [1]\<rparr>,
     \<lparr>case_input = [2], expected_output = [3]\<rparr>, \<lparr>case_input = [4], expected_output = [4]\<rparr>]\<rparr>"

definition demo_config :: ExecutionConfig where
  "demo_config = \<lparr>limit = \<lparr>cpu_limit = 1, wall_limit = 1000, memory_limit = 0\<rparr>,
     sandbox_config = default_SandboxConfig\<rparr>"

lemma demo_run_tests:
  "\<exists>res. run_tests echo_runner (evaluate Accepted) ''a'' demo_suite demo_config ()
     = Some (Inr res, ()) \<and> failed_test_index res = Some 1"
  by (simp add: run_tests_def test_loop.simps demo_suite_def suite_size_def getTestCase_def echo_runner_def
    evaluate_def default_ExecutionResult_def)

theorem run_tests_outcome_witness:
  "\<exists>executions res. run_tests echo_runner (evaluate Accepted) ''a'' demo_suite demo_config () = Some (Inr res, ()) \<and>
     failed_test_index res = Some 1 \<and> outcome (evaluate Accepted) (test_cases demo_suite) executions res"
  using demo_run_tests run_tests_outcome [where runner = echo_runner and suite = demo_suite] by fastforce

end
