(* ===== verification/Submission_Service.thy ===== *)
theory Submission_Service
  imports Test_Runner Process_Runner
begin

text \<open>
  \<open>src/compiler/compiler.cpp\<close> and \<open>SubmissionService::evaluate\<close> of
  \<open>src/submission/submission.cpp\<close>: compile a solution beside its source, run the tests, derive the
  verdict. Both construct a \<open>ProcessRunner\<close>; the definitions take any \<open>IProcessRunner\<close>, and
  \<open>SubmissionService_evaluate\<close> is their composition with the real one. The text printed when a
  compilation fails is left out.
\<close>

section \<open>The compiler\<close>

definition compile_limits :: ExecutionLimits where
  "compile_limits = \<lparr>cpu_limit = 30, wall_limit = 60 * 1000, memory_limit = 1 * 1024 * 1024 * 1024\<rparr>"

definition compile :: "'s process_runner \<Rightarrow> string \<Rightarrow> string \<Rightarrow> 's \<Rightarrow> (CompileResult \<times> 's) option" where
  "compile runner source_file output_file s = do {
     let args = [source_file, ''-o'', output_file];
     let cfg = \<lparr>limit = compile_limits, sandbox_config = default_SandboxConfig\<rparr>;
     (execute, s) \<leftarrow> runner ''g++'' args [] cfg s;
     Some (\<lparr>compile_exit_code = exit_code execute, compile_stderr = stderr_output execute,
            executable_path = (if exit_code execute = 0 then output_file else [])\<rparr>, s)
   }"

section \<open>Paths\<close>

definition sep :: char where
  "sep = CHR ''/''"

text \<open>
  \<open>std::filesystem::path::parent_path\<close> on POSIX paths: without its last component and the separators
  before it, but never without the root directory. A path of separators only is its own parent.
\<close>

definition parent_path :: "string \<Rightarrow> string" where
  "parent_path p =
     (if list_all (\<lambda>c. c = sep) p then p
      else let dir = dropWhile (\<lambda>c. c \<noteq> sep) (rev p);
               base = dropWhile (\<lambda>c. c = sep) dir in
        if base \<noteq> [] then rev base else if dir \<noteq> [] then [sep] else [])"

text \<open>\<open>operator/\<close> with a relative right operand.\<close>

definition path_append :: "string \<Rightarrow> string \<Rightarrow> string" where
  "path_append p q = (if p = [] \<or> last p = sep then p @ q else p @ [sep] @ q)"

definition output_path :: "string \<Rightarrow> string" where
  "output_path solution_path = path_append (parent_path solution_path) ''solution_exec''"

section \<open>The service\<close>

record SubmissionResult =
  compile_result :: CompileResult
  submission_verdict :: Verdict
  test_runner_result :: TestRunnerResult

definition evaluate_submission ::
  "'s process_runner \<Rightarrow> judge \<Rightarrow> string \<Rightarrow> TestSuite \<Rightarrow> ExecutionConfig \<Rightarrow> 's
     \<Rightarrow> ((suite_error + SubmissionResult) \<times> 's) option"
where
  "evaluate_submission runner judge solution_path testsuite cfg s = do {
     let output_file = output_path solution_path;
     (compiled, s) \<leftarrow> compile runner solution_path output_file s;
     if compile_exit_code compiled = 0 then do {
       (tested, s) \<leftarrow> run_tests runner judge output_file testsuite cfg s;
       case tested of
         Inl error \<Rightarrow> Some (Inl error, s)
       | Inr runner_result \<Rightarrow>
           Some (Inr \<lparr>compile_result = compiled,
             submission_verdict = (if failed_test_index runner_result \<noteq> None
               then verdict (the (failed_judge_result runner_result)) else Accepted),
             test_runner_result = runner_result\<rparr>, s)
     }
     else Some (Inr \<lparr>compile_result = compiled, submission_verdict = CompilationError,
                     test_runner_result = no_failure\<rparr>, s)
   }"

text \<open>With the program's own runner and judge; \<open>junk\<close> is the judge's uninitialised memory.\<close>

definition SubmissionService_evaluate ::
  "'w kernel \<Rightarrow> (ExecutionResult \<Rightarrow> bytes \<Rightarrow> Verdict) \<Rightarrow> string \<Rightarrow> TestSuite \<Rightarrow> ExecutionConfig \<Rightarrow> 'w proc
     \<Rightarrow> ((suite_error + SubmissionResult) \<times> 'w proc) option"
where
  "SubmissionService_evaluate K junk =
     evaluate_submission (run K) (\<lambda>execution expected. evaluate (junk execution expected) execution expected)"

section \<open>Correctness\<close>

lemma evaluate_submission_verdict:
  assumes "evaluate_submission runner judge solution_path suite cfg s = Some (x, s')"
  shows "\<exists>compiled s1 result. compile runner solution_path (output_path solution_path) s = Some (compiled, s1) \<and>
    x = Inr result \<and> compile_result result = compiled \<and>
    (if compile_exit_code compiled \<noteq> 0
     then submission_verdict result = CompilationError \<and> s' = s1
     else \<exists>executions.
       run_cases runner (output_path solution_path) cfg (take (length executions) (test_cases suite)) s1
         = Some (executions, s') \<and>
       outcome judge (test_cases suite) executions (test_runner_result result) \<and>
       submission_verdict result = (case failed_test_index (test_runner_result result) of
           None \<Rightarrow> Accepted
         | Some i \<Rightarrow> verdict (judge (executions ! i) (expected_output (test_cases suite ! i)))) \<and>
       (submission_verdict result = Accepted \<longleftrightarrow> list_all2 (accepts_case judge) (test_cases suite) executions))"
proof -
  obtain compiled s1 where c: "compile runner solution_path (output_path solution_path) s = Some (compiled, s1)"
    using assms unfolding evaluate_submission_def Let_def by (auto elim!: bind_SomeE)
  show ?thesis
  proof (cases "compile_exit_code compiled = 0")
    case False
    with assms c show ?thesis unfolding evaluate_submission_def Let_def by auto
  next
    case True
    with assms c obtain tested where t: "run_tests runner judge (output_path solution_path) suite cfg s1 = Some (tested, s')"
      unfolding evaluate_submission_def Let_def by (auto elim!: bind_SomeE split: sum.splits)
    then obtain executions res where r: "tested = Inr res" "outcome judge (test_cases suite) executions res"
      "run_cases runner (output_path solution_path) cfg (take (length executions) (test_cases suite)) s1
         = Some (executions, s')"
      using test_loop_outcome [where i = 0] unfolding run_tests_def by fastforce
    let ?v = "if failed_test_index res \<noteq> None then verdict (the (failed_judge_result res)) else Accepted"
    have v: "?v = (case failed_test_index res of None \<Rightarrow> Accepted
        | Some i \<Rightarrow> verdict (judge (executions ! i) (expected_output (test_cases suite ! i))))"
      using r(2) by (auto simp: outcome_def split: option.splits)
    have "?v = Accepted \<longleftrightarrow> list_all2 (accepts_case judge) (test_cases suite) executions"
    proof (cases "failed_test_index res")
      case None
      with r(2) show ?thesis by (simp add: outcome_def)
    next
      case (Some i)
      with r(2) have "\<not> accepts_case judge (test_cases suite ! i) (executions ! i)" "i < length (test_cases suite)"
        "failed_judge_result res = Some (judge (executions ! i) (expected_output (test_cases suite ! i)))"
        by (simp_all add: outcome_def)
      with Some show ?thesis by (auto simp: accepts_case_def dest: list_all2_nthD)
    qed
    moreover have "x = Inr \<lparr>compile_result = compiled, submission_verdict = ?v, test_runner_result = res\<rparr>"
      using assms c True t r(1) unfolding evaluate_submission_def Let_def by auto
    ultimately show ?thesis using c True r(2,3) v
      by (intro exI [of _ compiled] exI [of _ s1] exI conjI) (simp, assumption, simp, simp, intro exI conjI, (assumption | rule refl)+)
  qed
qed

text \<open>
  C20. The verdict of a submission. If the compiler's run did not exit with zero the verdict is
  \<open>CompilationError\<close> and no test is run; otherwise the tests are run in order on the compiled
  executable up to the first that is not accepted, the verdict is the one the judge gave to that test's execution, and
  it is \<open>Accepted\<close> exactly when every test of the suite was run and accepted.
\<close>

theorem submission_verdict_correct:
  assumes "evaluate_submission runner judge solution_path suite cfg s = Some (x, s')"
  shows "\<exists>compiled s1 result. compile runner solution_path (output_path solution_path) s = Some (compiled, s1) \<and>
    x = Inr result \<and> compile_result result = compiled \<and>
    (if compile_exit_code compiled \<noteq> 0
     then submission_verdict result = CompilationError \<and> s' = s1
     else \<exists>executions.
       run_cases runner (output_path solution_path) cfg (take (length executions) (test_cases suite)) s1
         = Some (executions, s') \<and>
       outcome judge (test_cases suite) executions (test_runner_result result) \<and>
       submission_verdict result = (case failed_test_index (test_runner_result result) of
           None \<Rightarrow> Accepted
         | Some i \<Rightarrow> verdict (judge (executions ! i) (expected_output (test_cases suite ! i)))) \<and>
       (submission_verdict result = Accepted \<longleftrightarrow> list_all2 (accepts_case judge) (test_cases suite) executions))"
  using assms by (rule evaluate_submission_verdict)

theorem submission_verdict_correct_witness:
  "\<exists>result. evaluate_submission echo_runner (evaluate Accepted) ''/tmp/a.cpp'' demo_suite demo_config ()
       = Some (Inr result, ()) \<and> submission_verdict result = WrongAnswer \<and>
     (\<exists>executions. outcome (evaluate Accepted) (test_cases demo_suite) executions (test_runner_result result))"
proof -
  have "\<exists>result. evaluate_submission echo_runner (evaluate Accepted) ''/tmp/a.cpp'' demo_suite demo_config ()
       = Some (Inr result, ()) \<and> submission_verdict result = WrongAnswer \<and> compile_exit_code (compile_result result) = 0"
    by (simp add: evaluate_submission_def compile_def run_tests_def test_loop.simps demo_suite_def suite_size_def
      getTestCase_def echo_runner_def evaluate_def default_ExecutionResult_def Let_def)
  then show ?thesis
    using submission_verdict_correct [where runner = echo_runner and judge = "evaluate Accepted"
      and solution_path = "''/tmp/a.cpp''" and suite = demo_suite and cfg = demo_config and s = "()"]
    by fastforce
qed

end
