(* ===== verification/Main_Program.thy ===== *)
theory Main_Program
  imports Runner_Entry Submission_Service
begin

text \<open>
  \<open>src/main.cpp\<close>: run one program in the sandbox and report. The existence of a file is a parameter; what is
  written to the console is left out.
\<close>

definition is_absolute :: "string \<Rightarrow> bool" where
  "is_absolute p \<longleftrightarrow> p \<noteq> [] \<and> hd p = sep"

text \<open>The program to run: the first argument, or a fixture of the build, relative to the working directory.\<close>

definition main_executable :: "string \<Rightarrow> string list \<Rightarrow> string" where
  "main_executable project_root args =
     (let executable_path = (case args of
            arg # _ \<Rightarrow> arg
          | [] \<Rightarrow> path_append (path_append project_root ''build'') ''fixture_print_stdout'') in
      if \<not> is_absolute executable_path then path_append project_root executable_path else executable_path)"

definition main_limits :: ExecutionLimits where
  "main_limits = \<lparr>cpu_limit = 1, wall_limit = 8 * 1000, memory_limit = 1 * 1024 * 1024 * 1024\<rparr>"

text \<open>The exit status of the process; \<open>args\<close> are the arguments after the program's name.\<close>

definition main_program :: "'s process_runner \<Rightarrow> (string \<Rightarrow> bool) \<Rightarrow> string \<Rightarrow> string list \<Rightarrow> 's \<Rightarrow> (int \<times> 's) option" where
  "main_program runner exists project_root args s =
     (let executable_path = main_executable project_root args in
      if \<not> exists executable_path then Some (1, s)
      else do {
        let cfg = \<lparr>limit = main_limits, sandbox_config = default_SandboxConfig\<rparr>;
        (result, s) \<leftarrow> runner executable_path [] [] cfg s;
        Some (if exit_code result = 0 then 0 else 1, s)
      })"

lemma is_absolute_append: "is_absolute p \<Longrightarrow> is_absolute (path_append p q)"
  by (auto simp: is_absolute_def path_append_def hd_append)

lemma main_executable_absolute: "is_absolute project_root \<Longrightarrow> is_absolute (main_executable project_root args)"
  by (auto simp: main_executable_def Let_def is_absolute_append split: list.splits)

text \<open>
  C38. What the exit status of the program means. If \<open>main\<close> returns zero, an existing file with an absolute path was run,
  with no arguments and no input, by a run whose log shows a normal exit with code zero; a failure of the runner or
  of the sandbox never yields zero.
\<close>

theorem main_success_sound:
  assumes "honest K" "fresh_fds K held" "is_absolute project_root"
    "main_program (run K) exists project_root args s = Some (0, s')"
  shows "\<exists>path res new. is_absolute path \<and> exists path \<and> path = main_executable project_root args \<and>
    run K path [] [] \<lparr>limit = main_limits, sandbox_config = default_SandboxConfig\<rparr> s = Some (res, s') \<and>
    emits s new s' \<and> witnessed [] res new \<and> exit_code res = 0 \<and>
    status res \<notin> {RunnerFailure, SandboxFailure}"
proof -
  let ?path = "main_executable project_root args"
  from assms(4) obtain res where r: "exists ?path" "exit_code res = 0"
    "run K ?path [] [] \<lparr>limit = main_limits, sandbox_config = default_SandboxConfig\<rparr> s = Some (res, s')"
    by (auto simp: main_program_def Let_def elim!: bind_SomeE split: if_splits)
  from run_outcome [OF assms(1,2) _ r(3)] r main_executable_absolute [OF assms(3)] show ?thesis
    by (auto split: if_splits)
qed

theorem main_success_sound_witness:
  "\<exists>s' res new. main_program (run print_kernel) (\<lambda>p. p = ''/w/prog'') ''/w'' [''prog''] (boot (3, [], [])) = Some (0, s') \<and>
     run print_kernel ''/w/prog'' [] [] \<lparr>limit = main_limits, sandbox_config = default_SandboxConfig\<rparr> (boot (3, [], [])) = Some (res, s') \<and>
     calls s' = new \<and> witnessed [] res new"
proof -
  have p: "main_executable ''/w'' [''prog''] = ''/w/prog''" "is_absolute ''/w''"
    by (simp_all add: main_executable_def is_absolute_def path_append_def sep_def)
  obtain res s' where "run print_kernel ''/w/prog'' [] [] \<lparr>limit = main_limits, sandbox_config = default_SandboxConfig\<rparr>
      (boot (3, [], [])) = Some (res, s')" "exit_code res = 0"
    using print_run [of "boot (3, [], [])" 3 "[]" "[]" "\<lparr>limit = main_limits, sandbox_config = default_SandboxConfig\<rparr>"
      "''/w/prog''" "[]" "[]"] by (auto simp: boot_simps main_limits_def)
  then have m: "main_program (run print_kernel) (\<lambda>p. p = ''/w/prog'') ''/w'' [''prog''] (boot (3, [], [])) = Some (0, s')"
    by (simp add: main_program_def p(1))
  from main_success_sound [OF print_honest print_fresh p(2) m] m show ?thesis
    by (auto simp: p(1) emits_def boot_simps)
qed

end
