(* ===== verification/Runner_Deadline.thy ===== *)
theory Runner_Deadline
  imports Runner_Entry
begin

text \<open>
  The wall-clock limit of \<open>ProcessRunner::run\<close>: which readings of the clock decide that a submission timed out, what
  its wall time is, and that \<open>Terminate\<close> is sent in time whatever the submission does.
\<close>

section \<open>The readings of the clock\<close>

definition readings :: "call_log \<Rightarrow> int list" where
  "readings log = map (\<lambda>x. rv (snd x)) (filter (\<lambda>x. fst x = Clock) log)"

lemma readings_simps [simp]:
  "readings [] = []" "readings (xs @ ys) = readings xs @ readings ys"
  "readings ((Clock, r) # log) = rv r # readings log"
  by (simp_all add: readings_def)

definition timeless :: "syscall \<Rightarrow> bool" where
  "timeless c \<longleftrightarrow> c \<noteq> Clock"

lemma timeless_simps [simp]:
  "timeless (Close fd)" "timeless (Poll fds n)" "timeless (Waitpid pid mode)" "timeless (Write fd bs)" "timeless (Read fd k)"
  by (simp_all add: timeless_def)

lemma timeless_io: "reads_from fd c \<Longrightarrow> timeless c" "writes_to fd c \<Longrightarrow> timeless c"
  by (auto simp: timeless_def reads_from_def writes_to_def)

lemma only_timeless:
  assumes "only timeless s t" obtains ys where "emits s ys t" "readings ys = []"
  using assms unfolding only_def readings_def timeless_def by (auto simp: filter_empty_conv)

text \<open>
  Until the report arrives, termination has been requested exactly if the clock has been read at or past the
  deadline. With the report the clock is read once more, for the wall time.
\<close>

definition clocked :: "run_env \<Rightarrow> 'w proc \<Rightarrow> runner \<Rightarrow> 'w proc \<Rightarrow> bool" where
  "clocked e s0 p s \<longleftrightarrow> wall_time_limit_exceeded (run_result p) = termination_requested p \<and>
     (\<exists>new. emits s0 new s \<and>
       (if submission_finished p
        then \<exists>xs t. readings new = xs @ [t] \<and> termination_requested p = (\<exists>x \<in> set xs. deadline e \<le> x) \<and>
          wall_time (run_result p) = (t - start_time e) sdiv 1000000
        else termination_requested p = (\<exists>x \<in> set (readings new). deadline e \<le> x)))"

lemma clocked_running:
  "\<not> submission_finished p \<Longrightarrow> emits s0 new s \<Longrightarrow> wall_time_limit_exceeded (run_result p) = termination_requested p \<Longrightarrow>
     termination_requested p = (\<exists>x \<in> set (readings new). deadline e \<le> x) \<Longrightarrow> clocked e s0 p s"
  unfolding clocked_def by auto

lemma clocked_timeless:
  assumes "clocked e s0 p s" "only timeless s t"
  shows "clocked e s0 p t"
proof -
  obtain ys where "emits s ys t" "readings ys = []" using assms(2) by (rule only_timeless)
  with assms(1) show ?thesis unfolding clocked_def by (fastforce dest: emits_trans)
qed

lemma clocked_update [simp]:
  "clocked e s0 (p\<lparr>stdin_open := b\<rparr>) s = clocked e s0 p s"
  "clocked e s0 (p\<lparr>stdout_open := b\<rparr>) s = clocked e s0 p s"
  "clocked e s0 (p\<lparr>stderr_open := b\<rparr>) s = clocked e s0 p s"
  "clocked e s0 (p\<lparr>control_channel_open := b\<rparr>) s = clocked e s0 p s"
  "clocked e s0 (p\<lparr>supervisor_reaped := b\<rparr>) s = clocked e s0 p s"
  "clocked e s0 (p\<lparr>stdout_read := bs\<rparr>) s = clocked e s0 p s"
  "clocked e s0 (p\<lparr>stderr_read := bs\<rparr>) s = clocked e s0 p s"
  "clocked e s0 (p\<lparr>input_offset := i\<rparr>) s = clocked e s0 p s"
  "clocked e s0 (p\<lparr>poll_fds := fds\<rparr>) s = clocked e s0 p s"
  "clocked e s0 (p\<lparr>run_status := st\<rparr>) s = clocked e s0 p s"
  "clocked e s0 (p\<lparr>run_usage := ru\<rparr>) s = clocked e s0 p s"
  by (simp_all add: clocked_def)

lemma clocked_Close: "clocked e s0 p s \<Longrightarrow> clocked e s0 p (do_sys K (Close fd) s)"
  by (erule clocked_timeless) (rule only_do_sys, simp)

lemma clocked_close:
  assumes "clocked e s0 p s"
  shows "close_stdin K e p s = (q, t) \<Longrightarrow> clocked e s0 q t" "close_stdout K e p s = (q, t) \<Longrightarrow> clocked e s0 q t"
    "close_stderr K e p s = (q, t) \<Longrightarrow> clocked e s0 q t" "close_control K e p s = (q, t) \<Longrightarrow> clocked e s0 q t"
  using assms by (auto simp: close_defs intro: clocked_Close)

lemma clocked_when_open:
  assumes "clocked e s0 p s"
  shows "when_open c (close_stdin K e) p s = (q, t) \<Longrightarrow> clocked e s0 q t"
    "when_open c (close_stdout K e) p s = (q, t) \<Longrightarrow> clocked e s0 q t"
    "when_open c (close_stderr K e) p s = (q, t) \<Longrightarrow> clocked e s0 q t"
    "when_open c (close_control K e) p s = (q, t) \<Longrightarrow> clocked e s0 q t"
  using assms by (auto simp: when_open_def split: if_splits intro: clocked_close)

lemma clocked_close_pipes: "close_pipes K e p s = (q, t) \<Longrightarrow> clocked e s0 p s \<Longrightarrow> clocked e s0 q t"
  unfolding close_pipes_def by (auto split: prod.splits) (metis clocked_when_open(1-3))

lemma clocked_retry: "clocked e s0 p s \<Longrightarrow> retry K c s = Some (r, t) \<Longrightarrow> timeless c \<Longrightarrow> clocked e s0 p t"
  by (blast intro: clocked_timeless retry_only)

text \<open>The deadline check, right after the clock has been read.\<close>

lemma clocked_deadline:
  assumes "clocked e s0 p s" "\<not> submission_finished p" "sys K Clock s = (now, s1)"
    "enforce_deadline K e (rv now) p s1 = Some (Inr q, t)"
  shows "clocked e s0 q t \<and> \<not> submission_finished q"
proof -
  obtain new where n: "emits s0 new s" "termination_requested p = (\<exists>x \<in> set (readings new). deadline e \<le> x)"
    and w: "wall_time_limit_exceeded (run_result p) = termination_requested p"
    using assms(1,2) unfolding clocked_def by auto
  have e: "emits s0 (new @ [(Clock, now)]) s1" using emits_trans [OF n(1) emits_sys [OF assms(3)]] .
  show ?thesis
  proof (cases "\<not> termination_requested p \<and> rv now \<ge> deadline e")
    case False
    with assms(2,4) have "q = p" "t = s1" by (auto simp: enforce_deadline_def)
    moreover have "termination_requested p = (\<exists>x \<in> set (readings (new @ [(Clock, now)])). deadline e \<le> x)"
      using False n(2) by auto
    ultimately show ?thesis using clocked_running [OF assms(2) e w] assms(2) by simp
  next
    case True
    let ?p = "p\<lparr>termination_requested := True, run_result := (run_result p)\<lparr>wall_time_limit_exceeded := True\<rparr>\<rparr>"
    from True assms(2,4) obtain u where u: "send_message K (control_r e) Terminate [] s1 = Some (True, u)"
      "when_open stdin_open (close_stdin K e) ?p u = (q, t)"
      unfolding enforce_deadline_def give_up_def Let_def by (auto elim!: bind_SomeE split: if_splits prod.splits)
    have "clocked e s0 ?p s1" using True assms(2) by (intro clocked_running [OF _ e]) simp_all
    then have "clocked e s0 ?p u"
      by (rule clocked_timeless) (rule only_mono [OF send_message_only [OF u(1)]], rule timeless_io)
    with u(2) have "clocked e s0 q t" using clocked_when_open(1) by blast
    then show ?thesis using deadline_running [OF assms(4,2)] by simp
  qed
qed

text \<open>The handlers do not read the clock, but for the one that receives the report.\<close>

lemma clocked_terminated:
  assumes "clocked e s0 p s" "\<not> submission_finished p" "handle_terminated K e header p s = Some (Inr q, t)"
  shows "clocked e s0 q t"
proof -
  from assms(3) obtain bs s1 where r: "read_all K (control_r e) sizeof_terminated s = Some ((True, bs), s1)"
    unfolding handle_terminated_def Let_def by (auto simp: give_up_ends elim!: bind_SomeE split: if_splits)
  let ?p = "p\<lparr>run_status := wait_status (dec_terminated bs), run_usage := usage (dec_terminated bs), submission_finished := True\<rparr>"
  from assms(3) r obtain p1 s2 p2 s3 where s: "finish_supervisor_terminal K e ?p s1 = Some (True, p1, s2)"
    "finalize_resource_usage K e p1 s2 = (p2, s3)" "close_pipes K e (finalize_status p2) s3 = (q, t)"
    unfolding handle_terminated_def Let_def
    by (auto simp: give_up_ends elim!: bind_SomeE split: if_splits prod.splits)
  have 0: "clocked e s0 p s1"
    by (rule clocked_timeless [OF assms(1)]) (rule only_mono [OF read_all_only [OF r]], rule timeless_io)
  have "clocked e s0 (p1\<lparr>submission_finished := False\<rparr>) s2 \<and> submission_finished p1"
  proof -
    obtain p0 u where u: "when_open control_channel_open (close_control K e) ?p s1 = (p0, u)" by fastforce
    then have "when_open control_channel_open (close_control K e) p s1 =
        (p0\<lparr>submission_finished := False, run_status := run_status p, run_usage := run_usage p\<rparr>, u)" "submission_finished p0"
      using assms(2) by (auto simp: when_open_def close_defs split: if_splits)
    moreover from clocked_when_open(4) [OF 0 this(1)] have "clocked e s0 (p0\<lparr>submission_finished := False\<rparr>) u" by simp
    moreover obtain r where "retry K (Waitpid (supervisor_pid e) Blocking) u = Some (r, s2)" "p1 = p0\<lparr>supervisor_reaped := True\<rparr>"
      using s(1) u unfolding finish_supervisor_terminal_def by (auto elim!: bind_SomeE split: if_splits)
    moreover from clocked_retry [OF calculation(3) this(1)] have "clocked e s0 (p0\<lparr>submission_finished := False\<rparr>) s2" by simp
    ultimately show ?thesis by (simp add: clocked_def)
  qed
  then have c: "clocked e s0 (p1\<lparr>submission_finished := False\<rparr>) s2" "submission_finished p1" by simp_all
  obtain x where x: "sys K Clock s2 = (x, s3)" using s(2) by (auto simp: finalize_resource_usage_def split: prod.splits)
  obtain new where n: "emits s0 new s2" "termination_requested p1 = (\<exists>x \<in> set (readings new). deadline e \<le> x)"
    "wall_time_limit_exceeded (run_result p1) = termination_requested p1" using c(1) unfolding clocked_def by auto
  have "readings (new @ [(Clock, x)]) = readings new @ [rv x]" by simp
  moreover have "emits s0 (new @ [(Clock, x)]) s3" using emits_trans [OF n(1) emits_sys [OF x]] .
  moreover have "termination_requested p2 = termination_requested p1" "submission_finished p2" "wall_time (run_result p2) = (rv x - start_time e) sdiv 1000000"
    "wall_time_limit_exceeded (run_result p2) = wall_time_limit_exceeded (run_result p1)"
    using s(2) x c(2) by (auto simp: finalize_resource_usage_def)
  ultimately have "clocked e s0 p2 s3" using n unfolding clocked_def by auto
  then have "clocked e s0 (finalize_status p2) s3" unfolding finalize_status_def by (auto simp: clocked_def split: if_split)
  then show ?thesis by (rule clocked_close_pipes [OF s(3)])
qed

lemma setup_failed_ends: "handle_setup_failed K e header p s \<noteq> Some (Inr q, t)"
  by (auto simp: handle_setup_failed_def Let_def give_up_ends elim!: bind_SomeE split: if_splits prod.splits)

lemma clocked_control:
  assumes "clocked e s0 p s" "\<not> submission_finished p" "runner_control K e ready p s = Some (Inr q, t)"
  shows "clocked e s0 q t"
proof -
  have "clocked e s0 q t" if r: "read_all K (control_r e) sizeof_header s = Some (x, s1)"
    and h: "handle_terminated K e header p s1 = Some (Inr q, t)" for x s1 header
  proof -
    have "clocked e s0 p s1"
      by (rule clocked_timeless [OF assms(1)]) (rule only_mono [OF read_all_only [OF r]], rule timeless_io)
    then show ?thesis using assms(2) h by (rule clocked_terminated)
  qed
  with assms(1,3) show ?thesis unfolding runner_control_def Let_def
    by (auto simp: give_up_ends setup_failed_ends simp del: msg_code.simps elim!: bind_SomeE split: if_splits)
qed

lemma clocked_output:
  assumes "clocked e s0 p s"
  shows "runner_stdout K e ready p s = Some (Inr q, t) \<Longrightarrow> clocked e s0 q t"
    "runner_stderr K e ready p s = Some (Inr q, t) \<Longrightarrow> clocked e s0 q t"
  unfolding runner_stdout_def runner_stderr_def using assms
  by (auto simp: give_up_ends elim!: bind_SomeE split: if_splits prod.splits dest!: clocked_retry [OF assms] dest: clocked_close)

lemma clocked_stdin:
  assumes "clocked e s0 p s" "runner_stdin K e ready p s = Some (Inr q, t)"
  shows "clocked e s0 q t"
  using assms unfolding runner_stdin_def Let_def
  by (auto simp: give_up_ends close_stdin_def elim!: bind_SomeE split: if_splits prod.splits
    intro!: clocked_Close dest!: clocked_retry [OF assms(1)])

lemma and_then_Inr: "and_then x f = Some (Inr q, t) \<longleftrightarrow> (\<exists>p s. x = Some (Inr p, s) \<and> f p s = Some (Inr q, t))"
  unfolding and_then_def by (auto elim!: bind_SomeE split: sum.splits)

text \<open>The steps of a round that goes on.\<close>

lemma round_steps:
  assumes "runner_round K e p s = Some (Inr q, t)" "\<not> submission_finished p"
  obtains now s1 p1 s2 ready s3 where "sys K Clock s = (now, s1)" "enforce_deadline K e (rv now) p s1 = Some (Inr p1, s2)"
    "\<not> submission_finished p1"
    "retry K (Poll (zip (poll_fds p1) [POLLOUT, POLLIN, POLLIN, POLLIN]) (poll_timeout e (rv now) p1)) s2 = Some (ready, s3)"
    "rv ready \<noteq> - 1"
    "and_then (and_then (and_then (runner_control K e ready p1 s3) (runner_stdin K e ready)) (runner_stdout K e ready))
       (runner_stderr K e ready) = Some (Inr q, t)"
proof -
  obtain now s1 where now: "sys K Clock s = (now, s1)" by fastforce
  from assms(1) obtain p1 s2 where 1: "enforce_deadline K e (rv now) p s1 = Some (Inr p1, s2)"
    and body: "(if all_closed p1 then Some (Inr p1, s2)
        else do {
          (ready, s) \<leftarrow> retry K (Poll (zip (poll_fds p1) [POLLOUT, POLLIN, POLLIN, POLLIN]) (poll_timeout e (rv now) p1)) s2;
          if rv ready = - 1 then give_up_classified K e p1 s
          else and_then (and_then (and_then (runner_control K e ready p1 s)
            (runner_stdin K e ready)) (runner_stdout K e ready)) (runner_stderr K e ready)
        }) = Some (Inr q, t)"
    unfolding runner_round_def now prod.case and_then_Inr by blast
  note running = deadline_running [OF 1 assms(2)]
  then have "\<not> all_closed p1" by (simp add: all_closed_def)
  with body running now 1 show thesis
    by (auto simp: give_up_ends elim!: bind_SomeE split: if_splits intro!: that)
qed

lemma clocked_round:
  assumes "clocked e s0 p s" "\<not> submission_finished p" "runner_round K e p s = Some (Inr q, t)"
  shows "clocked e s0 q t"
proof -
  from assms(3,2) obtain now s1 p1 s2 ready s3 where now: "sys K Clock s = (now, s1)"
    and 1: "enforce_deadline K e (rv now) p s1 = Some (Inr p1, s2)"
    and r: "retry K (Poll (zip (poll_fds p1) [POLLOUT, POLLIN, POLLIN, POLLIN]) (poll_timeout e (rv now) p1)) s2 = Some (ready, s3)"
    and b: "and_then (and_then (and_then (runner_control K e ready p1 s3) (runner_stdin K e ready)) (runner_stdout K e ready))
       (runner_stderr K e ready) = Some (Inr q, t)"
    by (rule round_steps)
  from clocked_deadline [OF assms(1,2) now 1] have c: "clocked e s0 p1 s2" "\<not> submission_finished p1" by simp_all
  from b obtain p2 s4 p3 s5 p4 s6 where 2: "runner_control K e ready p1 s3 = Some (Inr p2, s4)"
      "runner_stdin K e ready p2 s4 = Some (Inr p3, s5)"
      "runner_stdout K e ready p3 s5 = Some (Inr p4, s6)" "runner_stderr K e ready p4 s6 = Some (Inr q, t)"
    unfolding and_then_Inr by blast
  have "clocked e s0 p1 s3" using c(1) r by (rule clocked_retry) simp
  from clocked_control [OF this c(2) 2(1)] have "clocked e s0 p2 s4" .
  from clocked_stdin [OF this 2(2)] have "clocked e s0 p3 s5" .
  from clocked_output(1) [OF this 2(3)] have "clocked e s0 p4 s6" .
  from clocked_output(2) [OF this 2(4)] show ?thesis .
qed

section \<open>When a run times out\<close>

lemma undecided_running: "undecided p \<Longrightarrow> \<not> all_closed p \<Longrightarrow> \<not> submission_finished p \<and> blank (run_result p)"
  by (auto simp: undecided_def split: if_splits)

lemma undecided_round:
  "undecided p \<Longrightarrow> \<not> all_closed p \<Longrightarrow> runner_round K e p s = Some (Inr q, t) \<Longrightarrow> undecided q"
  using cautious_round [of p K e s] undecided_running [of p] by (auto simp: cautious_def)

text \<open>The loop of a run that did not end in a failure: where it starts and where it ends.\<close>

lemma run_parent_loop:
  assumes "fit K e res0" "\<not> wall_time_limit_exceeded res0" "run_parent K e res0 s = Some (res, s')" "\<not> failure res"
  obtains p t q where "only timeless s t" "runner_loop K e p t = Some (Inr q, s')" "all_closed q" "res = classify q"
    "run_result p = res0" "\<not> submission_finished p" "\<not> termination_requested p"
proof -
  let ?s1 = "do_sys K (Close (snd (control_socket (run_fds e)))) s"
  from assms(3,4) obtain rc s2 where rc: "receive_message K (control_r e) sizeof_ready ?s1 = Some (rc, s2)"
    and io: "supervise_io K e res0 s2 = Some (res, s')"
    unfolding run_parent_def Let_def
    by (auto simp: failure_def elim!: bind_SomeE split: option.splits if_splits)
  let ?s3 = "do_sys K (Close (fst (stdin_pipe (run_fds e)))) (do_sys K (Close (snd (stderr_pipe (run_fds e))))
      (do_sys K (Close (snd (stdout_pipe (run_fds e)))) s2))"
  have o: "only timeless s ?s3"
    using only_mono [OF receive_message_only [OF rc] timeless_io(1)]
    by (meson only_do_sys only_trans timeless_simps(1))
  obtain p t where p: "(if length (run_input e) = 0 then close_stdin K e (initial_runner e res0) ?s3
      else (initial_runner e res0, ?s3)) = (p, t)" by fastforce
  have i: "run_inv e res0 ?s3 p t"
    using initial_inv [OF assms(2), of e ?s3 K] assms(1) p by (auto simp: fit_def split: if_splits)
  from io obtain x s4 where l: "runner_loop K e p t = Some (x, s4)"
    "(case x of Inl res \<Rightarrow> Some (res, s4) | Inr p \<Rightarrow> conclude K e p s4) = Some (res, s')"
    unfolding supervise_io_def Let_def p prod.case by (auto elim!: bind_SomeE)
  with runner_loop_sound [OF assms(1) i l(1)] assms(4) obtain q where q: "x = Inr q" "run_inv e res0 ?s3 q s4" "all_closed q"
    by (cases x) auto
  then have "supervisor_reaped q" by (auto simp: run_inv_def flags_ok_def all_closed_def)
  with l(2) q(1) have "res = classify q" "s' = s4" by (auto simp: conclude_def)
  moreover have "only timeless ?s3 t" "run_result p = res0" "\<not> submission_finished p" "\<not> termination_requested p"
    using p by (auto simp: close_stdin_def initial_runner_def only_do_sys split: if_splits)
  ultimately show thesis using l(1) q that o only_trans by blast
qed

lemma wall_time_classify [simp]: "wall_time (classify p) = wall_time (run_result p)"
  by (simp add: classify_def Let_def)

text \<open>
  C9. The wall-clock limit of a run. When \<open>ProcessRunner::run\<close> returns in the caller without a runner or sandbox failure,
  its log holds the readings of the clock at the head of each round and one last reading after the report. The run
  counts as timed out exactly if one of the readings before the last was at or past the deadline, and its wall time is the
  last reading less the start, in whole milliseconds.
\<close>

theorem run_times_out_iff:
  assumes "well_connected K e" "run_parent K e fresh_result s = Some (res, s')"
    "status res \<notin> {RunnerFailure, SandboxFailure}"
  shows "\<exists>new xs t. emits s new s' \<and> readings new = xs @ [t] \<and>
    wall_time_limit_exceeded res = (\<exists>x \<in> set xs. deadline e \<le> x) \<and>
    wall_time res = (t - start_time e) sdiv 1000000"
proof -
  have "\<not> failure res" using assms(3) by (simp add: failure_def)
  then obtain p u q where l: "only timeless s u" "runner_loop K e p u = Some (Inr q, s')" "all_closed q" "res = classify q"
    "run_result p = fresh_result" "\<not> submission_finished p" "\<not> termination_requested p"
    by (rule run_parent_loop [OF well_connected_fit [OF assms(1)] fresh_result_simps(2) assms(2)])
  obtain ys where y: "emits s ys u" "readings ys = []" using l(1) by (rule only_timeless)
  have "clocked e s p u" by (rule clocked_running [OF l(6) y(1)]) (use l y in simp_all)
  moreover have "undecided p" using l(5,6) by (simp add: undecided_def blank_def)
  ultimately have "case Inr q :: ExecutionResult + runner of
      Inl res \<Rightarrow> \<exists>p t. (clocked e s p t \<and> undecided p) \<and> \<not> all_closed p \<and> runner_round K e p t = Some (Inl res, s')
    | Inr q \<Rightarrow> (clocked e s q s' \<and> undecided q) \<and> all_closed q"
    using l(2) by (intro runner_loop_rule [where I = "\<lambda>p t. clocked e s p t \<and> undecided p"])
      (auto intro: clocked_round undecided_round dest: undecided_running)
  then have "clocked e s q s'" "submission_finished q" using l(3) by (auto simp: all_closed_def)
  with l(4) show ?thesis unfolding clocked_def by auto
qed

theorem run_times_out_iff_witness:
  "\<exists>res s' new xs t. run_parent demo_kernel demo_env fresh_result (boot (demo_message, [66])) = Some (res, s') \<and>
     calls s' = new \<and> readings new = xs @ [t] \<and> wall_time_limit_exceeded res = (\<exists>x \<in> set xs. deadline demo_env \<le> x) \<and>
     wall_time res = (t - start_time demo_env) sdiv 1000000"
proof -
  obtain res s' where r: "run_parent demo_kernel demo_env fresh_result (boot (demo_message, [66])) = Some (res, s')"
    "status res = Completed" using demo_run by blast
  from run_times_out_iff [OF demo_well_connected r(1) demo_not_failure [OF r(2)]] r(1) show ?thesis
    by (auto simp: emits_def boot_simps)
qed

section \<open>The limit is enforced in time\<close>

text \<open>The first \<open>n\<close> rounds of the loop.\<close>

fun rounds :: "'w kernel \<Rightarrow> run_env \<Rightarrow> nat \<Rightarrow> runner \<Rightarrow> 'w proc \<Rightarrow> 'w run_step" where
  "rounds K e 0 p s = Some (Inr p, s)"
| "rounds K e (Suc n) p s =
     (if all_closed p then Some (Inr p, s)
      else and_then (runner_round K e p s) (rounds K e n))"

lemma runner_loop_rounds:
  "rounds K e n p s = Some (x, t) \<Longrightarrow>
     runner_loop K e p s = (case x of Inl res \<Rightarrow> Some (Inl res, t) | Inr q \<Rightarrow> runner_loop K e q t)"
proof (induction n arbitrary: p s)
  case (Suc n)
  show ?case
  proof (cases "all_closed p")
    case False
    with Suc.prems obtain y u where y: "runner_round K e p s = Some (y, u)"
      "(case y of Inl res \<Rightarrow> Some (Inl res, u) | Inr q \<Rightarrow> rounds K e n q u) = Some (x, t)"
      by (auto simp: and_then_def elim!: bind_SomeE)
    with False Suc.IH show ?thesis by (subst runner_loop.simps) (auto split: sum.splits)
  qed (use Suc.prems in auto)
qed auto

text \<open>
  What is asked of the clock: it never goes back, and a poll that succeeds takes at least one of its ticks, a nanosecond.
\<close>

definition ticking :: "'w kernel \<Rightarrow> ('w \<Rightarrow> int) \<Rightarrow> bool" where
  "ticking K time \<longleftrightarrow> (\<forall>c w. time w \<le> time (snd (K c w)) \<and> rv (fst (K Clock w)) = time w \<and>
     (\<forall>fds n. rv (fst (K (Poll fds n) w)) \<noteq> - 1 \<longrightarrow> time w < time (snd (K (Poll fds n) w))))"

lemma ticking_time: "ticking K time \<Longrightarrow> sys K c s = (r, t) \<Longrightarrow> time (world s) \<le> time (world t)"
  unfolding ticking_def by (metis snd_conv sys_world)

lemma ticking_clock: "ticking K time \<Longrightarrow> sys K Clock s = (r, t) \<Longrightarrow> rv r = time (world s)"
  unfolding ticking_def by (metis fst_conv sys_world)

text \<open>
  The nanoseconds still to come before the deadline. No call raises their number, which follows for whole fragments from
  the fact that they return over every patient kernel, by weighing it against the interruptions still to come.
\<close>

definition time_left :: "('w \<Rightarrow> int) \<Rightarrow> run_env \<Rightarrow> 'w \<Rightarrow> nat" where
  "time_left time e w = nat (deadline e - time w)"

lemma weighted_patient:
  assumes "patient K m" "ticking K time"
  shows "patient K (\<lambda>w. m w + k * time_left time e w)"
proof -
  have "time w \<le> time (snd (K c w))" for c w using assms(2) by (simp add: ticking_def)
  then have "k * time_left time e (snd (K c w)) \<le> k * time_left time e w" for c w
    by (simp add: time_left_def nat_mono)
  then show ?thesis using assms(1) unfolding patient_def by (meson add_le_less_mono add_less_le_mono add_mono)
qed

lemma heavier: "(a :: nat) + Suc b * x \<le> b + Suc b * y \<Longrightarrow> x \<le> y"
proof (rule ccontr)
  assume le: "a + Suc b * x \<le> b + Suc b * y" and "\<not> x \<le> y"
  then have "Suc b * Suc y \<le> Suc b * x" by (intro mult_le_mono2) simp
  with le show False by simp
qed

lemma time_forward:
  assumes "patient K m" "ticking K time" "x = Some (y, t)"
    "\<And>m'. patient K m' \<Longrightarrow> returns m' (m' (world s)) snd x"
  shows "time_left time e (world t) \<le> time_left time e (world s)"
  using assms(4) [OF weighted_patient [OF assms(1,2), of "Suc (m (world s))" e]] assms(3)
  by (auto simp: returns_def below_def intro: heavier)

lemma retry_time:
  assumes "patient K m" "ticking K time" "retry K c s = Some (r, t)"
  obtains w where "K c w = (r, world t)" "time_left time e w \<le> time_left time e (world s)"
proof -
  note pat = weighted_patient [OF assms(1,2), of "Suc (m (world s))" e]
  from retry_last [OF pat assms(3)] obtain w where "K c w = (r, world t)"
    "m w + Suc (m (world s)) * time_left time e w \<le> m (world s) + Suc (m (world s)) * time_left time e (world s)" by blast
  with that heavier show thesis by blast
qed

text \<open>Once requested, termination stays requested.\<close>

lemma requested_frame:
  "close_pipes K e p s = (q, t) \<Longrightarrow> termination_requested q = termination_requested p"
  "finish_supervisor_terminal K e p s = Some (ok, q, t) \<Longrightarrow> termination_requested q = termination_requested p"
  "finalize_resource_usage K e p s = (q, t) \<Longrightarrow> termination_requested q = termination_requested p"
  "termination_requested (finalize_status p) = termination_requested p"
  by (auto simp: close_pipes_def finish_supervisor_terminal_def finalize_resource_usage_def finalize_status_def when_open_def
    close_defs Let_def elim!: bind_SomeE split: if_splits prod.splits)

lemma requested_handlers:
  "handle_terminated K e header p s = Some (Inr q, t) \<Longrightarrow> termination_requested q = termination_requested p"
  "runner_stdin K e ready p s = Some (Inr q, t) \<Longrightarrow> termination_requested q = termination_requested p"
  "runner_stdout K e ready p s = Some (Inr q, t) \<Longrightarrow> termination_requested q = termination_requested p"
  "runner_stderr K e ready p s = Some (Inr q, t) \<Longrightarrow> termination_requested q = termination_requested p"
proof -
  show "handle_terminated K e header p s = Some (Inr q, t) \<Longrightarrow> termination_requested q = termination_requested p"
    unfolding handle_terminated_def Let_def
    by (auto simp: give_up_ends requested_frame(4) elim!: bind_SomeE split: if_splits prod.splits dest!: requested_frame(1-3))
  show "runner_stdin K e ready p s = Some (Inr q, t) \<Longrightarrow> termination_requested q = termination_requested p"
    unfolding runner_stdin_def Let_def close_stdin_def
    by (auto simp: give_up_ends elim!: bind_SomeE split: if_splits prod.splits)
  show "runner_stdout K e ready p s = Some (Inr q, t) \<Longrightarrow> termination_requested q = termination_requested p"
    "runner_stderr K e ready p s = Some (Inr q, t) \<Longrightarrow> termination_requested q = termination_requested p"
    unfolding runner_stdout_def runner_stderr_def close_defs
    by (auto simp: give_up_ends elim!: bind_SomeE split: if_splits prod.splits)
qed

lemma requested_control:
  "runner_control K e ready p s = Some (Inr q, t) \<Longrightarrow> termination_requested q = termination_requested p"
  unfolding runner_control_def Let_def
  by (auto simp: give_up_ends setup_failed_ends simp del: msg_code.simps elim!: bind_SomeE split: if_splits
    dest!: requested_handlers(1))

lemma requested_deadline:
  assumes "enforce_deadline K e now p s = Some (Inr q, t)" "\<not> submission_finished p"
  shows "termination_requested q \<longleftrightarrow> termination_requested p \<or> deadline e \<le> now"
  using assms unfolding enforce_deadline_def give_up_def Let_def when_open_def close_defs
  by (auto elim!: bind_SomeE split: if_splits prod.splits)

text \<open>A round that goes on has sent \<open>Terminate\<close> if it was time to, or has come closer to the deadline.\<close>

lemma requested_round:
  assumes "runner_round K e p s = Some (Inr q, t)" "\<not> submission_finished p"
    "termination_requested p \<or> ticking K time \<and> deadline e \<le> time (world s)"
  shows "termination_requested q"
proof -
  from assms(1,2) obtain now s1 p1 s2 ready s3 where now: "sys K Clock s = (now, s1)"
    and 1: "enforce_deadline K e (rv now) p s1 = Some (Inr p1, s2)"
    and b: "and_then (and_then (and_then (runner_control K e ready p1 s3) (runner_stdin K e ready)) (runner_stdout K e ready))
       (runner_stderr K e ready) = Some (Inr q, t)"
    by (rule round_steps)
  have "termination_requested p1"
    using requested_deadline [OF 1 assms(2)] assms(3) ticking_clock [OF _ now] by auto
  with b show ?thesis unfolding and_then_Inr by (auto dest!: requested_control requested_handlers(2-4))
qed

lemma handled_returns:
  "patient K m \<Longrightarrow> below m n s \<Longrightarrow> returns m n snd (and_then (and_then (and_then (runner_control K e ready p s)
       (runner_stdin K e ready)) (runner_stdout K e ready)) (runner_stderr K e ready))"
  by (assumption | rule returns_intros)+

lemma progress_round:
  assumes "patient K m" "ticking K time" "runner_round K e p s = Some (Inr q, t)" "\<not> submission_finished p"
    "time (world s) < deadline e"
  shows "time_left time e (world t) < time_left time e (world s)"
proof -
  let ?R = "\<lambda>s. time_left time e (world s)"
  from assms(3,4) obtain now s1 p1 s2 ready s3 where now: "sys K Clock s = (now, s1)"
    and 1: "enforce_deadline K e (rv now) p s1 = Some (Inr p1, s2)"
    and r: "retry K (Poll (zip (poll_fds p1) [POLLOUT, POLLIN, POLLIN, POLLIN]) (poll_timeout e (rv now) p1)) s2 = Some (ready, s3)"
      "rv ready \<noteq> - 1"
    and b: "and_then (and_then (and_then (runner_control K e ready p1 s3) (runner_stdin K e ready)) (runner_stdout K e ready))
       (runner_stderr K e ready) = Some (Inr q, t)"
    by (rule round_steps)
  have "?R s1 \<le> ?R s" using ticking_time [OF assms(2) now] by (simp add: time_left_def)
  moreover have "?R s2 \<le> ?R s1"
    by (rule time_forward [OF assms(1,2) 1]) (rule handlers_return, simp_all add: below_def)
  moreover obtain w where w: "K (Poll (zip (poll_fds p1) [POLLOUT, POLLIN, POLLIN, POLLIN]) (poll_timeout e (rv now) p1)) w =
      (ready, world s3)" "time_left time e w \<le> ?R s2"
    by (rule retry_time [OF assms(1,2) r(1)])
  moreover have "time w < time (world s3)"
    using assms(2) w(1) r(2) unfolding ticking_def by (metis fst_conv snd_conv)
  moreover have "?R t \<le> ?R s3"
    by (rule time_forward [OF assms(1,2) b]) (rule handled_returns, simp_all add: below_def)
  ultimately show ?thesis using assms(5) by (auto simp: time_left_def)
qed

lemma rounds_closed [simp]: "all_closed p \<Longrightarrow> rounds K e n p s = Some (Inr p, s)"
  by (cases n) simp_all

text \<open>
  After as many rounds as there were nanoseconds left, and one more, termination has been requested or everything is over.
\<close>

lemma rounds_deadline:
  assumes "patient K m" "ticking K time" "undecided p" "termination_requested p \<or> time_left time e (world s) < n"
  shows "\<exists>x t. rounds K e n p s = Some (x, t) \<and>
    (case x of Inl res \<Rightarrow> True | Inr q \<Rightarrow> all_closed q \<or> \<not> submission_finished q \<and> termination_requested q)"
  using assms(3,4)
proof (induction n arbitrary: p s)
  case 0
  then show ?case by (auto dest: undecided_running)
next
  case (Suc n)
  show ?case
  proof (cases "all_closed p")
    case False
    note run = undecided_running [OF Suc.prems(1) False]
    obtain x u where x: "runner_round K e p s = Some (x, u)"
      using runner_round_returns [OF assms(1), of "m (world s)" s e p] by (auto simp: returns_def below_def)
    show ?thesis
    proof (cases x)
      case (Inl res)
      with x False show ?thesis by (auto simp: and_then_def)
    next
      case (Inr q)
      note q = x [unfolded Inr]
      have "termination_requested q \<or> time_left time e (world u) < n"
        using requested_round [OF q, of time] progress_round [OF assms(1,2) q] run assms(2) Suc.prems(2)
        by (cases "deadline e \<le> time (world s)") auto
      with Suc.IH [OF undecided_round [OF Suc.prems(1) False q]] q False show ?thesis by (simp add: and_then_def)
    qed
  qed auto
qed

lemma rounds_sound:
  assumes "fit K e res0"
  shows "run_inv e res0 s0 p s \<Longrightarrow> sound_step e res0 s0 (rounds K e n p s)"
proof (induction n arbitrary: p s)
  case (Suc n)
  then show ?case using sound_and_then [OF sound_runner_round [OF assms Suc.prems] Suc.IH] by (simp add: sound_Inr)
qed (simp add: sound_Inr)

text \<open>
  C8. The wall-clock limit is enforced in time. Let the clock never go back, let every successful poll take at least a
  nanosecond, and let no call be interrupted for ever. Then, whatever the submission and the supervisor do, after one
  round more than there were nanoseconds left before the deadline, the main loop of \<open>ProcessRunner::run\<close> has ended or
  has sent \<open>Terminate\<close> to the supervisor, exactly once: no stream of output or input events can put it off.
\<close>

theorem deadline_enforced:
  assumes "well_connected K e" "patient K m" "ticking K time"
    and "(if length (run_input e) = 0 then close_stdin K e (initial_runner e fresh_result) s
      else (initial_runner e fresh_result, s)) = (p, u)"
    and "nat (deadline e - time (world u)) < n"
  shows "\<exists>x t. rounds K e n p u = Some (x, t) \<and>
    runner_loop K e p u = (case x of Inl res \<Rightarrow> Some (Inl res, t) | Inr q \<Rightarrow> runner_loop K e q t) \<and>
    (case x of
       Inl res \<Rightarrow> status res \<in> {RunnerFailure, SandboxFailure}
     | Inr q \<Rightarrow> all_closed q \<or> (\<exists>new. emits s new t \<and> put_on (control_r e) new = terminate_bytes))"
proof -
  note f = well_connected_fit [OF assms(1)]
  have p: "undecided p" using assms(4)
    by (auto simp: undecided_def blank_def close_stdin_def initial_runner_def split: if_splits)
  have "run_inv e fresh_result s p u"
    using initial_inv [OF fresh_result_simps(2), of e s K] f assms(4) by (auto simp: fit_def split: if_splits)
  note sound = rounds_sound [OF f this, of n]
  obtain x t where x: "rounds K e n p u = Some (x, t)"
    "case x of Inl res \<Rightarrow> True | Inr q \<Rightarrow> all_closed q \<or> \<not> submission_finished q \<and> termination_requested q"
    using rounds_deadline [OF assms(2,3) p, of e u n] assms(5) by (auto simp: time_left_def)
  have "\<exists>new. emits s new t \<and> put_on (control_r e) new = terminate_bytes"
    if "x = Inr q" "termination_requested q" for q
  proof -
    have "talks e fresh_result s q t" using sound x(1) that(1) by (simp add: sound_step_def run_inv_def)
    with that(2) show ?thesis by (auto simp: talks_def converses_def)
  qed
  moreover have "status res \<in> {RunnerFailure, SandboxFailure}" if "x = Inl res" for res
    using sound x(1) that by (simp add: sound_step_def failure_def)
  ultimately show ?thesis using x runner_loop_rounds [OF x(1)] by (intro exI [of _ x] exI [of _ t]) (auto split: sum.splits)
qed

text \<open>A submission that prints without end, under a supervisor that never says a word; a poll takes one tick.\<close>

fun chatty_kernel :: "nat kernel" where
  "chatty_kernel (Write fd bs) w = (Ret (length bs), w)"
| "chatty_kernel (Read fd n) w = (Data (take n [65]), w)"
| "chatty_kernel (Poll fds n) w = (Events 1 [0, POLLIN, 0, 0], Suc w)"
| "chatty_kernel Clock w = (Ret w, w)"
| "chatty_kernel _ w = (Ret 0, w)"

theorem deadline_enforced_witness:
  "\<exists>x t. rounds chatty_kernel demo_env 1000001 (initial_runner demo_env fresh_result) (boot 0) = Some (x, t) \<and>
    (case x of
       Inl res \<Rightarrow> status res \<in> {RunnerFailure, SandboxFailure}
     | Inr q \<Rightarrow> all_closed q \<or> put_on 3 (calls t) = terminate_bytes)"
proof -
  have k: "w \<le> snd (chatty_kernel c w) \<and> fst (chatty_kernel c w) \<noteq> Fail EINTR" for c w
    by (cases "(c, w)" rule: chatty_kernel.cases) auto
  have "honest chatty_kernel" unfolding honest_def by auto
  then have w: "well_connected chatty_kernel demo_env" using demo_well_connected by (simp add: well_connected_def)
  have p: "patient chatty_kernel (\<lambda>_. 0)" unfolding patient_def using k by simp
  have t: "ticking chatty_kernel int" unfolding ticking_def using k by simp
  have "(if length (run_input demo_env) = 0 then close_stdin chatty_kernel demo_env (initial_runner demo_env fresh_result) (boot 0)
      else (initial_runner demo_env fresh_result, boot 0)) = (initial_runner demo_env fresh_result, boot 0)"
    by (simp add: demo_env_def)
  from deadline_enforced [OF w p t this, of 1000001] obtain x t where
    "rounds chatty_kernel demo_env 1000001 (initial_runner demo_env fresh_result) (boot 0) = Some (x, t)"
    "case x of
       Inl res \<Rightarrow> status res \<in> {RunnerFailure, SandboxFailure}
     | Inr q \<Rightarrow> all_closed q \<or> (\<exists>new. emits (boot 0) new t \<and> put_on (control_r demo_env) new = terminate_bytes)"
    by (auto simp: demo_env_def boot_simps)
  then show ?thesis by (intro exI [of _ x] exI [of _ t]) (auto simp: emits_def boot_simps demo_env_def split: sum.splits)
qed

end
