(* ===== verification/Supervisor_Correct.thy ===== *)
theory Supervisor_Correct
  imports Supervisor Call_Log
begin

text \<open>
  The correctness of the supervisor. \<open>sup_agrees\<close> ties the locals of its loop to the log of its system calls;
  every handler of a round keeps \<open>sup_inv\<close> or gives up in an orderly way (\<open>sup_gave_up\<close>). The two theorems are
  what a successful exit has reported, and what every exit has done with the submission.
\<close>

section \<open>What the log of a supervisor shows\<close>

text \<open>
  The fixed parts of a supervisor's run: the submission's pid, the control descriptor, the read end of the status
  pipe and the path of the cgroup.
\<close>

record sup_env =
  child_pid :: int
  sup_cfd :: int
  sup_sfd :: int
  sup_path :: string

text \<open>How often the log shows that the child was reaped; a pid is signalled only before that.\<close>

definition reaped :: "int \<Rightarrow> call_log \<Rightarrow> nat" where
  "reaped pid log = length (filter (\<lambda>x. (\<exists>mode. fst x = Wait4 pid mode) \<and> rv (snd x) = pid) log)"

definition signals :: "int \<Rightarrow> syscall \<Rightarrow> bool" where
  "signals pid c \<longleftrightarrow> (\<exists>sig. c = Kill pid sig)"

definition pid_safe :: "int \<Rightarrow> call_log \<Rightarrow> bool" where
  "pid_safe pid log \<longleftrightarrow> (\<forall>a x b. log = a @ x # b \<longrightarrow> signals pid (fst x) \<longrightarrow> reaped pid a = 0)"

lemma reaped_simps [simp]:
  "reaped pid [] = 0"
  "reaped pid (xs @ ys) = reaped pid xs + reaped pid ys"
  "reaped pid ((Wait4 pid' mode, r) # log) = (if pid' = pid \<and> rv r = pid then 1 else 0) + reaped pid log"
  "reaped pid ((Close fd, r) # log) = reaped pid log"
  "reaped pid ((Kill pid' sig, r) # log) = reaped pid log"
  by (simp_all add: reaped_def)

lemma reaped_interrupted [simp]: "0 < pid \<Longrightarrow> reaped pid (replicate n (c, Fail e)) = 0"
  by (auto simp: reaped_def)

lemma pid_safe_split:
  assumes "reaped pid n1 = 0" "\<forall>x \<in> set n2. \<not> signals pid (fst x)"
  shows "pid_safe pid (n1 @ n2)"
  unfolding pid_safe_def
proof (intro allI impI)
  fix a x b assume "n1 @ n2 = a @ x # b" "signals pid (fst x)"
  with assms(2) obtain us where "n1 = a @ us" by (auto simp: append_eq_append_conv2 Cons_eq_append_conv)
  with assms(1) show "reaped pid a = 0" by simp
qed

text \<open>A status the child forwarded: its bytes came in on the status pipe after the tag.\<close>

definition forwarded :: "int \<Rightarrow> cint \<Rightarrow> call_log \<Rightarrow> bool" where
  "forwarded sfd st log \<longleftrightarrow> (\<exists>pre bs post. got_from sfd log = pre @ TAG # bs @ post \<and> length bs = sizeof_int \<and>
     st = dec32 bs)"

lemma forwarded_append: "forwarded sfd st log \<Longrightarrow> forwarded sfd st (log @ new)"
  unfolding forwarded_def by (metis append.assoc append_Cons got_from_simps(2))

text \<open>
  The cgroup was removed, or given up because the kernel denied access to it or no longer knew it. \<open>terminate\<close>
  gives it up when its kill file cannot be opened or written.
\<close>

definition let_go :: "string \<Rightarrow> call_log \<Rightarrow> bool" where
  "let_go path log \<longleftrightarrow> path = [] \<or>
     (\<exists>r. (Rmdir path, r) \<in> set log \<and> (rv r \<noteq> - 1 \<or> r \<in> {Fail ENOENT, Fail EPERM, Fail EACCES})) \<or>
     (\<exists>r. (Open (path @ ''/cgroup.kill'') O_WRONLY, r) \<in> set log \<and> r \<in> {Fail ENOENT, Fail EPERM, Fail EACCES}) \<or>
     (\<exists>fd err. (Write fd (string_bytes ''1''), Fail err) \<in> set log)"

lemma let_go_append: "let_go path log \<Longrightarrow> let_go path (log @ new)"
  unfolding let_go_def by auto

text \<open>Calls that concern neither the child nor what is sent on the control channel.\<close>

definition calm :: "sup_env \<Rightarrow> syscall \<Rightarrow> bool" where
  "calm v c \<longleftrightarrow> \<not> writes_to (sup_cfd v) c \<and> c \<noteq> Close (sup_cfd v) \<and> (\<forall>mode. c \<noteq> Wait4 (child_pid v) mode) \<and>
     \<not> signals (child_pid v) c"

lemma calm_log:
  assumes "\<forall>x \<in> set log. calm v (fst x)"
  shows "put_on (sup_cfd v) log = []" "closes (sup_cfd v) log = 0" "reaped (child_pid v) log = 0"
    "\<forall>x \<in> set log. \<not> signals (child_pid v) (fst x)"
  using assms by (auto simp: calm_def closes_def reaped_def filter_empty_conv intro: put_on_none)

lemma calm_simps [simp]:
  "calm v (Poll fds t)" "calm v (Rmdir path)" "calm v (Usleep us)" "calm v (Open path mode)" "calm v (Read fd n)"
  "calm v (Close fd) \<longleftrightarrow> fd \<noteq> sup_cfd v" "calm v (Write fd bs) \<longleftrightarrow> fd \<noteq> sup_cfd v"
  by (auto simp: calm_def writes_to_def signals_def)

lemma reads_calm: "reads_from fd c \<Longrightarrow> calm v c"
  by (auto simp: io_iff)

section \<open>The invariant\<close>

definition sup_agrees :: "sup_env \<Rightarrow> supervisor \<Rightarrow> call_log \<Rightarrow> bool" where
  "sup_agrees v p log \<longleftrightarrow>
     host_pid (sup_process p) = child_pid v \<and> put_on (sup_cfd v) log = [] \<and> closes (sup_cfd v) log = 0 \<and>
     (\<forall>x \<in> set log. \<not> signals (child_pid v) (fst x)) \<and>
     (startup_status_open p \<longrightarrow> status_fd (sup_process p) = sup_sfd v) \<and>
     (has_forwarded_status p \<longrightarrow> forwarded (sup_sfd v) (forwarded_child_status p) log) \<and>
     (cgroup_path (sup_sandbox p) = sup_path v \<or> cgroup_path (sup_sandbox p) = [] \<and> let_go (sup_path v) log) \<and>
     valid_rusage (sup_usage p)"

text \<open>The child has been reaped, once, and its status and usage are recorded.\<close>

definition sup_done :: "sup_env \<Rightarrow> supervisor \<Rightarrow> call_log \<Rightarrow> bool" where
  "sup_done v p log \<longleftrightarrow> reaped (child_pid v) log = 1 \<and> waited_pid p = child_pid v \<and> let_go (sup_path v) log \<and>
     (\<exists>r. (Wait4 (child_pid v) WNOHANG, r) \<in> set log \<and> rv r = child_pid v \<and> sup_usage p = reply_rusage r \<and>
        (\<not> has_forwarded_status p \<longrightarrow> sup_status p = reply_status r))"

definition sup_inv :: "sup_env \<Rightarrow> 'w proc \<Rightarrow> supervisor \<Rightarrow> 'w proc \<Rightarrow> bool" where
  "sup_inv v s0 p s \<longleftrightarrow> (\<exists>log. emits s0 log s \<and> sup_agrees v p log \<and>
     (if sup_finished p then sup_done v p log else reaped (child_pid v) log = 0))"

text \<open>
  The supervisor gave up: it reaped the child, or killed it and waited for it; it never signalled a pid it had
  reaped; the last call closed the control channel.
\<close>

definition sup_gave_up :: "sup_env \<Rightarrow> 'w proc \<Rightarrow> 'w proc \<Rightarrow> bool" where
  "sup_gave_up v s0 s \<longleftrightarrow> (\<exists>n1 n2 r. emits s0 (n1 @ n2 @ [(Close (sup_cfd v), r)]) s \<and>
     closes (sup_cfd v) (n1 @ n2) = 0 \<and> reaped (child_pid v) n1 = 0 \<and> reaped (child_pid v) n2 \<le> 1 \<and>
     (\<forall>x \<in> set n2. \<not> signals (child_pid v) (fst x)) \<and>
     (reaped (child_pid v) n2 = 1 \<or>
      (\<exists>k r. (Kill (child_pid v) SIGKILL, k) \<in> set n1 \<and> (Wait4 (child_pid v) Blocking, r) \<in> set n2)))"

definition sup_sound :: "sup_env \<Rightarrow> 'w proc \<Rightarrow> 'w sup_step \<Rightarrow> bool" where
  "sup_sound v s0 x \<longleftrightarrow> (\<forall>y s. x = Some (y, s) \<longrightarrow>
     (case y of Inl e \<Rightarrow> e = Exited EXIT_FAILURE \<and> sup_gave_up v s0 s | Inr p \<Rightarrow> sup_inv v s0 p s))"

text \<open>
  What the supervisor needs of the kernel and of its descriptors: \<open>open\<close> never returns the descriptor of the
  control channel, which stays open, and \<open>wait4\<close> fills in a whole \<open>struct rusage\<close>.
\<close>

definition sup_fit :: "'w kernel \<Rightarrow> sup_env \<Rightarrow> bool" where
  "sup_fit K v \<longleftrightarrow> honest K \<and> sup_sfd v \<noteq> sup_cfd v \<and> 0 < child_pid v \<and>
     (\<forall>path mode w. rv (fst (K (Open path mode) w)) \<noteq> sup_cfd v) \<and>
     (\<forall>pid mode w. valid_rusage (reply_rusage (fst (K (Wait4 pid mode) w))))"

lemma sup_agrees_calm:
  assumes "sup_agrees v p log" "\<forall>x \<in> set new. calm v (fst x)"
  shows "sup_agrees v p (log @ new)"
  using assms calm_log [OF assms(2)] by (auto simp: sup_agrees_def intro: forwarded_append let_go_append)

lemma sup_inv_calm:
  assumes "sup_inv v s0 p s" "only (calm v) s t" "\<not> sup_finished p"
  shows "sup_inv v s0 p t"
proof -
  from assms(1,3) obtain log where l: "emits s0 log s" "sup_agrees v p log" "reaped (child_pid v) log = 0"
    unfolding sup_inv_def by auto
  from assms(2) obtain new where n: "emits s new t" "\<forall>x \<in> set new. calm v (fst x)" unfolding only_def by blast
  from emits_trans [OF l(1) n(1)] sup_agrees_calm [OF l(2) n(2)] l(3) calm_log(3) [OF n(2)] assms(3)
  show ?thesis unfolding sup_inv_def by auto
qed

text \<open>The cgroup operations are calm, and what they report of the cgroup is in the log.\<close>

lemma sys_Open: "sup_fit K v \<Longrightarrow> sys K (Open path mode) s = (r, s') \<Longrightarrow> rv r \<noteq> sup_cfd v"
  unfolding sup_fit_def by (metis fst_conv sys_simps(1))

lemma terminate_calm:
  assumes "sup_fit K v" "terminate K sb s = (ok, sb', s')"
  shows "\<exists>new. emits s new s' \<and> (\<forall>x \<in> set new. calm v (fst x)) \<and>
    (sb' = sb \<or> cgroup_path sb' = [] \<and> let_go (cgroup_path sb) new)"
proof (cases "cgroup_path sb = []")
  case True
  with assms(2) show ?thesis by (auto simp: terminate_def intro: exI [of _ "[]"])
next
  case False
  have o: "rv (fst (sys K (Open path mode) t)) \<noteq> sup_cfd v" for path mode t
    using sys_Open [OF assms(1)] by (metis prod.collapse)
  from assms(2) False show ?thesis
  proof (cases rule: terminate_cases)
    case (refused e)
    then show ?thesis
      by (intro exI [of _ "[(Open (cgroup_path sb @ ''/cgroup.kill'') O_WRONLY, Fail e)]"]) (auto simp: let_go_def)
  next
    case (written fd w c)
    let ?new = "[(Open (cgroup_path sb @ ''/cgroup.kill'') O_WRONLY, fd), (Write (rv fd) (string_bytes ''1''), w), (Close (rv fd), c)]"
    have "fst (sys K (Open (cgroup_path sb @ ''/cgroup.kill'') O_WRONLY) s) = fd"
      using assms(2) False written(2)
      by (cases "sys K (Open (cgroup_path sb @ ''/cgroup.kill'') O_WRONLY) s")
         (auto simp: terminate_def Let_def emits_def dest!: sys_calls split: if_splits prod.splits)
    with o have "\<forall>x \<in> set ?new. calm v (fst x)" by force
    moreover have "sb' = sb \<or> cgroup_path sb' = [] \<and> let_go (cgroup_path sb) ?new"
      using written(4) by (cases w) (auto simp: let_go_def)
    ultimately show ?thesis using written(2) by blast
  qed
qed

lemma cleanupCgroup_calm:
  assumes "cleanupCgroup K sb s = (ok, sb', s')"
  shows "\<exists>new. emits s new s' \<and> (\<forall>x \<in> set new. calm v (fst x)) \<and> (ok \<longrightarrow> cgroup_path sb' = [] \<and> let_go (cgroup_path sb) new)"
proof (cases "cgroup_path sb = []")
  case True
  with assms show ?thesis by (auto simp: cleanupCgroup_def let_go_def intro: exI [of _ "[]"])
next
  case False
  with assms have "cleanup_retries K 5 sb s = (ok, sb', s')" by (simp add: cleanupCgroup_def)
  from cleanup_retries_spec [OF this] obtain new where
    n: "emits s new s'" "\<forall>x \<in> set new. fst x = Rmdir (cgroup_path sb) \<or> fst x = Usleep 10000"
      "ok \<longrightarrow> cgroup_path sb' = [] \<and> (\<exists>r. (Rmdir (cgroup_path sb), r) \<in> set new \<and> given_up r)"
    by (fastforce dest: busy_tries_calls)
  then show ?thesis by (intro exI [of _ new]) (auto simp: let_go_def given_up_def)
qed

text \<open>What a status read from the pipe was made of.\<close>

lemma retry_read_byte:
  assumes "honest K" "retry K (Read fd 1) s = Some (r, s')" "0 < rv r"
  shows "\<exists>b. reply_data r = [b]"
proof -
  from retry_reply [OF assms(2)] obtain w where "fst (K (Read fd 1) w) = r" by blast
  with assms(1,3) obtain bs where "r = Data bs" "length bs \<le> 1" unfolding honest_def by (metis rv.simps(1) not_one_less_zero zless_iff_Suc_zadd less_minus_one_simps(1) less_trans less_irrefl)
  with assms(3) show ?thesis by (cases bs) auto
qed

lemma read_status_pipe_log:
  assumes "honest K" "read_status_pipe K fd s = Some (x, s')"
  shows "\<exists>new. emits s new s' \<and> (\<forall>y \<in> set new. reads_from fd (fst y)) \<and> (\<forall>st. x = WaitStatus st \<longrightarrow> forwarded fd st new)"
proof -
  from assms(2) obtain r s1 where r: "retry K (Read fd 1) s = Some (r, s1)"
    unfolding read_status_pipe_def by (auto elim!: bind_SomeE)
  from retry_Some [OF r] obtain n where e1: "emits s (replicate n (Read fd 1, Fail EINTR) @ [(Read fd 1, r)]) s1" by blast
  have reads: "\<forall>y \<in> set (replicate n (Read fd 1, Fail EINTR) @ [(Read fd 1, r)]). reads_from fd (fst y)"
    by (auto simp: reads_from_def)
  show ?thesis
  proof (cases "0 < rv r \<and> hd (reply_data r) = TAG")
    case True
    from retry_read_byte [OF assms(1) r] True have b: "reply_data r = [TAG]" by auto
    with True assms(2) r obtain ok bs where ra: "read_all K fd sizeof_int s1 = Some ((ok, bs), s')"
      "x = (if ok then WaitStatus (dec32 bs) else Error)"
      unfolding read_status_pipe_def by (auto simp: Let_def elim!: bind_SomeE)
    from read_all_data [OF ra(1)] obtain m where m: "emits s1 m s'" "\<forall>y \<in> set m. reads_from fd (fst y)" "bs = got_from fd m"
      by blast
    have "length bs = sizeof_int" if ok using read_all_exact [OF assms(1), of fd sizeof_int s1 bs s'] ra(1) that by auto
    then have "forwarded fd st (replicate n (Read fd 1, Fail EINTR) @ [(Read fd 1, r)] @ m)" if "x = WaitStatus st" for st
      unfolding forwarded_def using that ra(2) b m(3) by (intro exI [of _ "[]"] exI [of _ bs]) (auto split: if_splits)
    with emits_trans [OF e1 m(1)] reads m(2) show ?thesis
      by (intro exI [of _ "replicate n (Read fd 1, Fail EINTR) @ [(Read fd 1, r)] @ m"]) auto
  next
    case False
    have "\<exists>m. emits s1 m s' \<and> (\<forall>y \<in> set m. reads_from fd (fst y)) \<and> (\<forall>st. x \<noteq> WaitStatus st)"
    proof (cases "0 < rv r")
      case True
      with False retry_read_byte [OF assms(1) r] obtain b where "reply_data r = [b]" "b \<noteq> TAG" by auto
      with True assms(2) r obtain ok bs where "read_loop K fd (sizeof_setup_failed - 1) [b] s1 = Some ((ok, bs), s')"
        "x = (if ok then Payload (dec_setup_failed bs) else Error)"
        unfolding read_status_pipe_def by (auto simp: Let_def elim!: bind_SomeE)
      with read_loop_Some [of K fd "sizeof_setup_failed - 1" "[b]" s1 ok bs s'] show ?thesis by auto
    next
      case False
      then have "rv r = - 1 \<or> rv r = 0" by (cases r) auto
      with assms(2) r have "s' = s1" "x = Error \<or> x = Eof" unfolding read_status_pipe_def by auto
      then show ?thesis by (auto intro: exI [of _ "[]"])
    qed
    with emits_trans [OF e1] reads show ?thesis by fastforce
  qed
qed


section \<open>The steps keep the invariant\<close>

lemma sup_inv_running: "sup_inv v s0 p s \<Longrightarrow> \<not> sup_finished p \<Longrightarrow>
  \<exists>log. emits s0 log s \<and> sup_agrees v p log \<and> reaped (child_pid v) log = 0"
  by (auto simp: sup_inv_def)

lemma sup_running: "emits s0 log s \<Longrightarrow> sup_agrees v p log \<Longrightarrow> reaped (child_pid v) log = 0 \<Longrightarrow> \<not> sup_finished p \<Longrightarrow>
  sup_inv v s0 p s"
  by (auto simp: sup_inv_def)

text \<open>The cgroup request of the supervisor, as a step of its locals.\<close>

lemma sup_inv_terminate:
  assumes f: "sup_fit K v" and i: "sup_inv v s0 p s" "\<not> sup_finished p" and t: "terminate K (sup_sandbox p) s = (ok, sb, s1)"
  shows "sup_inv v s0 (p\<lparr>sup_sandbox := sb\<rparr>) s1"
proof -
  from sup_inv_running [OF i] obtain log where l: "emits s0 log s" "sup_agrees v p log" "reaped (child_pid v) log = 0" by blast
  from terminate_calm [OF f t] obtain new where n: "emits s new s1" "\<forall>x \<in> set new. calm v (fst x)"
    "sb = sup_sandbox p \<or> cgroup_path sb = [] \<and> let_go (cgroup_path (sup_sandbox p)) new" by blast
  have "let_go (sup_path v) (log @ new)" if "cgroup_path (sup_sandbox p) = []" "cgroup_path (sup_sandbox p) \<noteq> sup_path v"
    using l(2) that by (auto simp: sup_agrees_def intro: let_go_append)
  moreover have "let_go path (log @ new)" if "let_go path new" for path
    using that unfolding let_go_def by auto
  ultimately have "cgroup_path sb = sup_path v \<or> cgroup_path sb = [] \<and> let_go (sup_path v) (log @ new)"
    using n(3) l(2) by (auto simp: sup_agrees_def intro: let_go_append)
  with sup_agrees_calm [OF l(2) n(2)] have "sup_agrees v (p\<lparr>sup_sandbox := sb\<rparr>) (log @ new)"
    by (auto simp: sup_agrees_def)
  from sup_running [OF emits_trans [OF l(1) n(1)] this] l(3) calm_log(3) [OF n(2)] i(2) show ?thesis by simp
qed

lemma close_status_calm:
  assumes "sup_fit K v" "sup_agrees v p log" "startup_status_open p" "close_status K p s = (q, s1)"
  shows "q = p\<lparr>sup_process := (sup_process p)\<lparr>status_fd := - 1\<rparr>, startup_status_open := False, status_poll_fd := - 1\<rparr>"
    "only (calm v) s s1"
  using assms by (auto simp: close_status_def sup_agrees_def sup_fit_def intro: only_do_sys)

lemma sup_agrees_closed:
  "sup_agrees v p log \<Longrightarrow>
     sup_agrees v (p\<lparr>sup_process := (sup_process p)\<lparr>status_fd := - 1\<rparr>, startup_status_open := False, status_poll_fd := - 1\<rparr>) log"
  by (auto simp: sup_agrees_def)

lemma sup_inv_close_status:
  assumes "sup_fit K v" "sup_inv v s0 p s" "\<not> sup_finished p" "startup_status_open p" "close_status K p s = (q, s1)"
  shows "sup_inv v s0 q s1" "\<not> sup_finished q" "host_pid (sup_process q) = host_pid (sup_process p)"
    "sup_sandbox q = sup_sandbox p"
proof -
  from sup_inv_running [OF assms(2,3)] obtain log where l: "emits s0 log s" "sup_agrees v p log"
    "reaped (child_pid v) log = 0" by blast
  note q = close_status_calm [OF assms(1) l(2) assms(4,5)]
  have "sup_inv v s0 q s"
    using sup_running [OF l(1) sup_agrees_closed [OF l(2)] l(3)] assms(3) by (simp add: q(1))
  with q assms(3) show "sup_inv v s0 q s1" "\<not> sup_finished q" "host_pid (sup_process q) = host_pid (sup_process p)"
    "sup_sandbox q = sup_sandbox p" by (auto intro: sup_inv_calm)
qed

lemma sup_pid: "sup_inv v s0 p s \<Longrightarrow> host_pid (sup_process p) = child_pid v"
  by (auto simp: sup_inv_def sup_agrees_def)

text \<open>Waiting for the child.\<close>

lemma retry_wait_log:
  assumes "retry K (Wait4 (child_pid v) mode) s = Some (r, s1)" "0 < child_pid v"
  shows "\<exists>new. emits s new s1 \<and> (Wait4 (child_pid v) mode, r) \<in> set new \<and> put_on (sup_cfd v) new = [] \<and>
    closes (sup_cfd v) new = 0 \<and> (\<forall>x \<in> set new. \<not> signals (child_pid v) (fst x)) \<and>
    reaped (child_pid v) new = (if rv r = child_pid v then 1 else 0)"
proof -
  from retry_Some [OF assms(1)] obtain n where
    e: "emits s (replicate n (Wait4 (child_pid v) mode, Fail EINTR) @ [(Wait4 (child_pid v) mode, r)]) s1" by blast
  show ?thesis
    by (intro exI, rule conjI [OF e]) (use assms(2) in \<open>auto simp: put_on_def closes_def signals_def\<close>)
qed

lemma sup_sound_failure:
  assumes f: "sup_fit K v" and i: "sup_inv v s0 p s" "\<not> sup_finished p"
  shows "sup_sound v s0 (cleanup_supervisor_failure K (sup_cfd v) p b s)"
proof -
  obtain q s1 where q: "(if \<not> b then (case terminate K (sup_sandbox p) s of (_, sb, s) \<Rightarrow> (p\<lparr>sup_sandbox := sb\<rparr>, s))
     else (p, s)) = (q, s1)" by fastforce
  have i1: "sup_inv v s0 q s1" "\<not> sup_finished q"
    using q i sup_inv_terminate [OF f i] by (auto split: if_splits prod.splits)
  from sup_inv_running [OF this] obtain log where l: "emits s0 log s1" "sup_agrees v q log" "reaped (child_pid v) log = 0"
    by blast
  note pid = sup_pid [OF i1(1)]
  obtain k s2 where k: "sys K (Kill (child_pid v) SIGKILL) s1 = (k, s2)" by fastforce
  then have ks: "do_sys K (Kill (child_pid v) SIGKILL) s1 = s2" by (simp add: do_sys_def)
  show ?thesis unfolding sup_sound_def
  proof (intro allI impI)
    fix y s' assume "cleanup_supervisor_failure K (sup_cfd v) p b s = Some (y, s')"
    then obtain r s3 where r: "retry K (Wait4 (child_pid v) Blocking) s2 = Some (r, s3)"
      and y: "y = Inl (Exited EXIT_FAILURE)"
      and s': "s' = do_sys K (Close (sup_cfd v)) (snd (if startup_status_open q then close_status K q s3 else (q, s3)))"
      unfolding cleanup_supervisor_failure_def Let_def q prod.case pid ks
      by (auto elim!: bind_SomeE split: prod.splits if_splits)
    have pos: "0 < child_pid v" using f by (simp add: sup_fit_def)
    obtain w where w: "emits s2 w s3" "(Wait4 (child_pid v) Blocking, r) \<in> set w" "closes (sup_cfd v) w = 0"
      "\<forall>x \<in> set w. \<not> signals (child_pid v) (fst x)" "reaped (child_pid v) w = (if rv r = child_pid v then 1 else 0)"
      using retry_wait_log [OF r pos] by blast
    obtain q' s4 where c: "(if startup_status_open q then close_status K q s3 else (q, s3)) = (q', s4)" by fastforce
    with close_status_calm [OF f l(2)] have "only (calm v) s3 s4" by (auto split: if_splits)
    then obtain c where c': "emits s3 c s4" "\<forall>x \<in> set c. calm v (fst x)" unfolding only_def by blast
    obtain d s5 where d: "sys K (Close (sup_cfd v)) s4 = (d, s5)" by fastforce
    then have s5: "s' = s5" using s' by (simp add: c do_sys_def)
    let ?n1 = "log @ [(Kill (child_pid v) SIGKILL, k)]" and ?n2 = "w @ c"
    have "emits s0 (?n1 @ ?n2 @ [(Close (sup_cfd v), d)]) s'"
      using emits_trans [OF l(1) emits_trans [OF emits_sys [OF k] emits_trans [OF w(1) emits_trans [OF c'(1) emits_sys [OF d]]]]]
      by (simp add: s5)
    moreover have "closes (sup_cfd v) (?n1 @ ?n2) = 0" using l(2) w(3) calm_log(2) [OF c'(2)]
      by (simp add: sup_agrees_def closes_def)
    moreover have "\<forall>x \<in> set ?n2. \<not> signals (child_pid v) (fst x)" using w(4) calm_log(4) [OF c'(2)] by auto
    moreover have "reaped (child_pid v) ?n1 = 0" "reaped (child_pid v) ?n2 \<le> 1"
      using l(3) w(5) calm_log(3) [OF c'(2)] by simp_all
    moreover have "(Kill (child_pid v) SIGKILL, k) \<in> set ?n1" "(Wait4 (child_pid v) Blocking, r) \<in> set ?n2" using w(2) by simp_all
    ultimately have "sup_gave_up v s0 s'" unfolding sup_gave_up_def by blast
    with y show "case y of Inl e \<Rightarrow> e = Exited EXIT_FAILURE \<and> sup_gave_up v s0 s' | Inr p \<Rightarrow> sup_inv v s0 p s'" by simp
  qed
qed

lemma sup_sound_bind:
  "(\<And>a t. x = Some (a, t) \<Longrightarrow> sup_sound v s0 (f a t)) \<Longrightarrow> sup_sound v s0 (Option.bind x (case_prod f))"
  unfolding sup_sound_def by (auto elim!: bind_SomeE)

lemma sup_sound_Inr: "sup_inv v s0 p s \<Longrightarrow> sup_sound v s0 (Some (Inr p, s))"
  by (simp add: sup_sound_def)

lemma sup_inv_update: "sup_inv v s0 p s \<Longrightarrow> sup_inv v s0 (p\<lparr>sup_termination_requested := b\<rparr>) s"
  by (auto simp: sup_inv_def sup_agrees_def sup_done_def)

lemma sup_sound_control:
  assumes f: "sup_fit K v" and i: "sup_inv v s0 p s" "\<not> sup_finished p"
  shows "sup_sound v s0 (handle_control K (sup_cfd v) p s)"
  unfolding handle_control_def
proof (rule sup_sound_bind, goal_cases)
  case (1 a t)
  then have "only (calm v) s t" by (auto dest!: read_all_only elim: only_mono intro: reads_calm)
  from sup_inv_calm [OF i(1) this i(2)] have j: "sup_inv v s0 p t" .
  note fail = sup_sound_failure [OF f j i(2)]
  obtain ok sb t1 where te: "terminate K (sup_sandbox p) t = (ok, sb, t1)" by (metis surj_pair)
  note j1 = sup_inv_terminate [OF f j i(2) te]
  have "sup_sound v s0 (cleanup_supervisor_failure K (sup_cfd v) (p\<lparr>sup_sandbox := sb\<rparr>) True t1)"
    using sup_sound_failure [OF f j1] i(2) by simp
  with fail sup_sound_Inr [OF j] sup_sound_Inr [OF sup_inv_update [OF j1]] te show ?case
    by (auto simp: Let_def split: prod.splits)
qed

text \<open>The child has been reaped: what remains is done without signalling it again.\<close>

lemma gave_up_after_reap:
  assumes "emits s0 log s" "sup_agrees v p log" "reaped (child_pid v) log = 0"
    and "emits s w s1" "closes (sup_cfd v) w = 0" "\<forall>x \<in> set w. \<not> signals (child_pid v) (fst x)" "reaped (child_pid v) w = 1"
    and "emits s1 c s2" "\<forall>x \<in> set c. calm v (fst x) \<or> writes_to (sup_cfd v) (fst x)"
  shows "sup_gave_up v s0 (do_sys K (Close (sup_cfd v)) s2)"
proof -
  obtain d s3 where d: "sys K (Close (sup_cfd v)) s2 = (d, s3)" by fastforce
  have c: "closes (sup_cfd v) c = 0" "reaped (child_pid v) c = 0" "\<forall>x \<in> set c. \<not> signals (child_pid v) (fst x)"
    using assms(9) by (auto simp: closes_def reaped_def filter_empty_conv io_iff signals_def calm_def dest!: bspec)
  have "emits s0 (log @ (w @ c) @ [(Close (sup_cfd v), d)]) (do_sys K (Close (sup_cfd v)) s2)"
    using emits_trans [OF assms(1) emits_trans [OF assms(4) emits_trans [OF assms(8) emits_sys [OF d]]]] d
    by (simp add: do_sys_def)
  with assms c show ?thesis unfolding sup_gave_up_def
    by (intro exI [of _ log] exI [of _ "w @ c"] exI [of _ d]) (auto simp: sup_agrees_def)
qed

lemma sup_sound_setup_failure:
  assumes f: "sup_fit K v" and i: "sup_inv v s0 p s" "\<not> sup_finished p" "startup_status_open p"
  shows "sup_sound v s0 (handle_setup_failure K (sup_cfd v) msg p s)"
proof -
  obtain q s1 where q: "close_status K p s = (q, s1)" by fastforce
  note j = sup_inv_close_status [OF f i q]
  note pid = sup_pid [OF j(1)]
  show ?thesis unfolding handle_setup_failure_def Let_def q prod.case pid
  proof (rule sup_sound_bind, goal_cases)
    case (1 r s2)
    have pos: "0 < child_pid v" using f by (simp add: sup_fit_def)
    from sup_inv_running [OF j(1,2)] obtain log where l: "emits s0 log s1" "sup_agrees v q log" "reaped (child_pid v) log = 0"
      by blast
    from retry_wait_log [OF 1 pos] obtain w where w: "emits s1 w s2" "put_on (sup_cfd v) w = []" "closes (sup_cfd v) w = 0"
      "\<forall>x \<in> set w. \<not> signals (child_pid v) (fst x)" "reaped (child_pid v) w = (if rv r = child_pid v then 1 else 0)" by blast
    show ?case
    proof (cases "rv r = child_pid v")
      case True
      obtain ok sb s3 where c: "cleanupCgroup K (sup_sandbox q) s2 = (ok, sb, s3)" by (metis surj_pair)
      from cleanupCgroup_calm [OF c] obtain n where n: "emits s2 n s3" "\<forall>x \<in> set n. calm v (fst x)" by blast
      note up = gave_up_after_reap [OF l w(1,3,4)]
      have "sup_gave_up v s0 (do_sys K (Close (sup_cfd v)) s3)" using up n True w(5) by auto
      moreover have "sup_gave_up v s0 (do_sys K (Close (sup_cfd v)) s4)"
        if se: "send_message K (sup_cfd v) SetupFailed pl s3 = Some (sent, s4)" for pl sent s4
      proof -
        from send_message_only [OF se] obtain m where m: "emits s3 m s4" "\<forall>x \<in> set m. writes_to (sup_cfd v) (fst x)"
          unfolding only_def by blast
        from up [OF _ emits_trans [OF n(1) m(1)]] n(2) m(2) True w(5) show ?thesis by auto
      qed
      ultimately show ?thesis using True c by (auto simp: sup_sound_def elim!: bind_SomeE)
    next
      case False
      have "sup_agrees v q (log @ w)" using l(2) w by (auto simp: sup_agrees_def intro: forwarded_append let_go_append)
      from sup_running [OF emits_trans [OF l(1) w(1)] this] l(3) w(5) False j(2) have "sup_inv v s0 q s2" by simp
      from sup_sound_failure [OF f this j(2)] False show ?thesis by simp
    qed
  qed
qed

lemma sup_sound_status:
  assumes f: "sup_fit K v" and i: "sup_inv v s0 p s" "\<not> sup_finished p" "startup_status_open p"
  shows "sup_sound v s0 (handle_status K (sup_cfd v) p s)"
  unfolding handle_status_def
proof (rule sup_sound_bind, goal_cases)
  case (1 x t)
  from sup_inv_running [OF i(1,2)] obtain log where l: "emits s0 log s" "sup_agrees v p log" "reaped (child_pid v) log = 0"
    by blast
  have sfd: "status_fd (sup_process p) = sup_sfd v" and "honest K" using l(2) i(3) f by (auto simp: sup_agrees_def sup_fit_def)
  with read_status_pipe_log [OF _ 1] obtain n where n: "emits s n t" "\<forall>y \<in> set n. reads_from (sup_sfd v) (fst y)"
    "\<forall>st. x = WaitStatus st \<longrightarrow> forwarded (sup_sfd v) st n" by auto
  have calm: "\<forall>y \<in> set n. calm v (fst y)" using n(2) reads_calm by blast
  with n(1) have "only (calm v) s t" unfolding only_def by blast
  from sup_inv_calm [OF i(1) this i(2)] have j: "sup_inv v s0 p t" .
  have fw: "sup_inv v s0 (p\<lparr>forwarded_child_status := st, has_forwarded_status := True\<rparr>) t" if x: "x = WaitStatus st" for st
  proof -
    obtain pre bs post where "got_from (sup_sfd v) n = pre @ TAG # bs @ post" "length bs = sizeof_int" "st = dec32 bs"
      using n(3) x unfolding forwarded_def by blast
    then have "forwarded (sup_sfd v) st (log @ n)" unfolding forwarded_def
      by (intro exI [of _ "got_from (sup_sfd v) log @ pre"] exI [of _ bs] exI [of _ post]) simp
    with sup_agrees_calm [OF l(2) calm] have "sup_agrees v (p\<lparr>forwarded_child_status := st, has_forwarded_status := True\<rparr>) (log @ n)"
      by (simp add: sup_agrees_def)
    from sup_running [OF emits_trans [OF l(1) n(1)] this] l(3) calm_log(3) [OF calm] i(2) show ?thesis by simp
  qed
  obtain q u where q: "close_status K p t = (q, u)" by fastforce
  show ?case
    using fw sup_sound_setup_failure [OF f j i(2,3)] sup_sound_failure [OF f j i(2)] sup_inv_close_status(1) [OF f j i(2,3) q] q
    by (cases x) (auto intro: sup_sound_Inr)
qed


lemma sup_sound_reap:
  assumes f: "sup_fit K v" and i: "sup_inv v s0 p s" "\<not> sup_finished p"
  shows "sup_sound v s0 (handle_reap K (sup_cfd v) p s)"
  unfolding handle_reap_def Let_def sup_pid [OF i(1)]
proof (rule sup_sound_bind, goal_cases)
  case (1 r s1)
  have pos: "0 < child_pid v" using f by (simp add: sup_fit_def)
  from sup_inv_running [OF i] obtain log where l: "emits s0 log s" "sup_agrees v p log" "reaped (child_pid v) log = 0" by blast
  from retry_wait_log [OF 1 pos] obtain w where w: "emits s w s1" "(Wait4 (child_pid v) WNOHANG, r) \<in> set w"
    "put_on (sup_cfd v) w = []" "closes (sup_cfd v) w = 0"
    "\<forall>x \<in> set w. \<not> signals (child_pid v) (fst x)" "reaped (child_pid v) w = (if rv r = child_pid v then 1 else 0)" by blast
  define q where "q = p\<lparr>waited_pid := rv r, sup_usage := (if 0 < rv r then reply_rusage r else sup_usage p),
    sup_status := (if rv r = child_pid v \<and> \<not> has_forwarded_status p then reply_status r else sup_status p)\<rparr>"
  have "valid_rusage (reply_rusage r)" using retry_reply [OF 1] f unfolding sup_fit_def by metis
  then have q: "sup_agrees v q (log @ w)" "\<not> sup_finished q" "startup_status_open q = startup_status_open p"
    using l(2) w i(2) by (auto simp: sup_agrees_def q_def intro: forwarded_append let_go_append)
  show ?case
  proof (cases "rv r = child_pid v")
    case False
    with sup_running [OF emits_trans [OF l(1) w(1)] q(1)] l(3) w(6) q(2) have j: "sup_inv v s0 q s1" by simp
    from sup_sound_failure [OF f j q(2)] sup_sound_Inr [OF j] False show ?thesis
      unfolding q_def [symmetric] by simp
  next
    case True
    let ?q = "q\<lparr>sup_finished := True\<rparr>"
    obtain q' s2 where q': "(if startup_status_open ?q then close_status K ?q s1 else (?q, s1)) = (q', s2)" by fastforce
    have agree: "sup_agrees v ?q (log @ w)" using q(1) by (simp add: sup_agrees_def)
    have fields: "sup_sandbox q' = sup_sandbox q \<and> sup_finished q' \<and> waited_pid q' = child_pid v \<and> sup_usage q' = reply_rusage r \<and>
        has_forwarded_status q' = has_forwarded_status p \<and> (\<not> has_forwarded_status p \<longrightarrow> sup_status q' = reply_status r)"
      and c1: "only (calm v) s1 s2" and a1: "sup_agrees v q' (log @ w)"
      using close_status_calm [OF f agree, of s1 q' s2] q' True pos agree sup_agrees_closed [OF agree] by (auto simp: q_def split: if_splits)
    from c1 obtain c where c: "emits s1 c s2" "\<forall>x \<in> set c. calm v (fst x)" unfolding only_def by blast
    obtain ok sb s3 where cl: "cleanupCgroup K (sup_sandbox q') s2 = (ok, sb, s3)" by (metis surj_pair)
    from cleanupCgroup_calm [OF cl] obtain n where n: "emits s2 n s3" "\<forall>x \<in> set n. calm v (fst x)"
      "ok \<longrightarrow> cgroup_path sb = [] \<and> let_go (cgroup_path (sup_sandbox q')) n" by blast
    have cn: "\<forall>x \<in> set (c @ n). calm v (fst x)" using c(2) n(2) by auto
    have up: "sup_gave_up v s0 (do_sys K (Close (sup_cfd v)) s3)"
      using gave_up_after_reap [OF l w(1,4,5) _ emits_trans [OF c(1) n(1)]] w(6) True cn by auto
    have inv: "sup_inv v s0 (q'\<lparr>sup_sandbox := sb\<rparr>) s3" if ok
    proof -
      let ?log = "log @ w @ c @ n"
      have e: "emits s0 ?log s3" using emits_trans [OF l(1) emits_trans [OF w(1) emits_trans [OF c(1) n(1)]]] .
      have "let_go path ?log" if "let_go path n" for path using that unfolding let_go_def by auto
      moreover have "let_go path ?log" if "let_go path (log @ w)" for path using that let_go_append [of path "log @ w" "c @ n"] by simp
      ultimately have lg: "let_go (sup_path v) ?log" using n(3) \<open>ok\<close> a1 by (auto simp: sup_agrees_def)
      have "sup_agrees v q' ?log" using sup_agrees_calm [OF a1 cn] by simp
      then have ag: "sup_agrees v (q'\<lparr>sup_sandbox := sb\<rparr>) ?log" using n(3) \<open>ok\<close> lg by (auto simp: sup_agrees_def)
      have "reaped (child_pid v) ?log = 1" using l(3) w(6) True calm_log(3) [OF cn] by simp
      then have "sup_done v (q'\<lparr>sup_sandbox := sb\<rparr>) ?log"
        using fields lg w(2) True unfolding sup_done_def by auto
      with e ag fields show ?thesis unfolding sup_inv_def by auto
    qed
    show ?thesis unfolding q_def [symmetric] using True pos q' cl up inv by (auto simp: sup_sound_def)
  qed
qed


lemma failure_ends: "cleanup_supervisor_failure K cfd p b s = Some (x, s') \<Longrightarrow> \<exists>e. x = Inl e"
  unfolding cleanup_supervisor_failure_def Let_def by (auto elim!: bind_SomeE split: prod.splits)

lemma setup_failure_ends: "handle_setup_failure K cfd msg p s = Some (x, s') \<Longrightarrow> \<exists>e. x = Inl e"
  unfolding handle_setup_failure_def Let_def
  by (auto elim!: bind_SomeE split: prod.splits if_splits dest: failure_ends)

text \<open>Only the wait ends the loop.\<close>

lemma handlers_keep_running:
  "handle_control K cfd p s = Some (Inr q, s') \<Longrightarrow> sup_finished q = sup_finished p"
  "handle_status K cfd p s = Some (Inr q, s') \<Longrightarrow> sup_finished q = sup_finished p"
  unfolding handle_control_def handle_status_def Let_def
  by (auto elim!: bind_SomeE split: prod.splits if_splits StatusPipeReadResult.splits
    dest!: failure_ends setup_failure_ends simp: close_status_def)

lemma sup_sound_then:
  assumes "sup_sound v s0 x" "\<And>p s. x = Some (Inr p, s) \<Longrightarrow> sup_inv v s0 p s \<Longrightarrow> sup_sound v s0 (f p s)"
  shows "sup_sound v s0 (do { (y, s) \<leftarrow> x; case y of Inl e \<Rightarrow> Some (Inl e, s) | Inr p \<Rightarrow> f p s })"
proof (rule sup_sound_bind, goal_cases)
  case (1 y s)
  with assms show ?case by (cases y) (auto simp: sup_sound_def)
qed

lemma sup_sound_round:
  assumes f: "sup_fit K v" and i: "sup_inv v s0 p s" "\<not> sup_finished p"
  shows "sup_sound v s0 (supervise_round K (sup_cfd v) p s)"
  unfolding supervise_round_def
proof (rule sup_sound_bind, goal_cases)
  case (1 r s1)
  have "only (calm v) s s1" by (rule retry_only [OF 1]) simp
  from sup_inv_calm [OF i(1) this i(2)] have j: "sup_inv v s0 p s1" .
  have "sup_sound v s0 (do {
    (x, s) \<leftarrow> (if 0 < rv r \<and> has_flag (revents r 0) POLLIN then handle_control K (sup_cfd v) p s1 else Some (Inr p, s1));
    case x of Inl e \<Rightarrow> Some (Inl e, s) | Inr p \<Rightarrow> do {
      (x, s) \<leftarrow> (if startup_status_open p \<and> has_flag (revents r 1) (POLLIN OR POLLHUP OR POLLERR)
                 then handle_status K (sup_cfd v) p s else Some (Inr p, s));
      case x of Inl e \<Rightarrow> Some (Inl e, s) | Inr p \<Rightarrow> handle_reap K (sup_cfd v) p s } })"
  proof (rule sup_sound_then, goal_cases)
    case 1
    show ?case using sup_sound_control [OF f j i(2)] sup_sound_Inr [OF j] by simp
  next
    case (2 q s2)
    then have q: "\<not> sup_finished q" using i(2) by (auto split: if_splits dest: handlers_keep_running(1))
    show ?case
    proof (rule sup_sound_then, goal_cases)
      case 1
      show ?case using sup_sound_status [OF f 2(2) q] sup_sound_Inr [OF 2(2)] by simp
    next
      case (2 q' s3)
      then have "\<not> sup_finished q'" using q by (auto split: if_splits dest: handlers_keep_running(2))
      from sup_sound_reap [OF f 2(2) this] show ?case .
    qed
  qed
  with sup_sound_failure [OF f j i(2)] show ?case by simp
qed

lemma supervise_sound:
  assumes f: "sup_fit K v" and i: "sup_inv v s0 p s" and run: "supervise K (sup_cfd v) p s = Some (x, s')"
  shows "case x of Inl e \<Rightarrow> e = Exited EXIT_FAILURE \<and> sup_gave_up v s0 s' | Inr q \<Rightarrow> sup_inv v s0 q s' \<and> sup_finished q"
proof -
  define P where "P = (\<lambda>(K' :: 'a kernel) cfd p (s :: 'a proc) (y :: (proc_end + supervisor) \<times> 'a proc).
     K' = K \<longrightarrow> cfd = sup_cfd v \<longrightarrow> sup_inv v s0 p s \<longrightarrow> (case fst y of
       Inl e \<Rightarrow> e = Exited EXIT_FAILURE \<and> sup_gave_up v s0 (snd y) | Inr q \<Rightarrow> sup_inv v s0 q (snd y) \<and> sup_finished q))"
  have "P K (sup_cfd v) p s (x, s')"
  proof (rule supervise.raw_induct [where P = P, OF _ run])
    fix g :: "'a kernel \<Rightarrow> int \<Rightarrow> supervisor \<Rightarrow> 'a proc \<Rightarrow> 'a sup_step" and K' cfd p s y
    assume IH: "\<And>K cfd p s y. g K cfd p s = Some y \<Longrightarrow> P K cfd p s y"
      and eq: "(if sup_finished p then Some (Inr p, s)
        else do {
          (x, s) \<leftarrow> supervise_round K' cfd p s;
          case x of Inl e \<Rightarrow> Some (Inl e, s) | Inr p \<Rightarrow> g K' cfd p s
        }) = Some y"
    show "P K' cfd p s y" unfolding P_def
    proof (intro impI)
      assume a: "K' = K" "cfd = sup_cfd v" "sup_inv v s0 p s"
      show "case fst y of Inl e \<Rightarrow> e = Exited EXIT_FAILURE \<and> sup_gave_up v s0 (snd y)
        | Inr q \<Rightarrow> sup_inv v s0 q (snd y) \<and> sup_finished q"
      proof (cases "sup_finished p")
        case True
        with eq a(3) show ?thesis by auto
      next
        case False
        with eq a obtain z t where z: "supervise_round K (sup_cfd v) p s = Some (z, t)"
          "(case z of Inl e \<Rightarrow> Some (Inl e, t) | Inr p \<Rightarrow> g K (sup_cfd v) p t) = Some y" by (auto elim!: bind_SomeE)
        from sup_sound_round [OF f a(3) False] z(1) have "case z of Inl e \<Rightarrow> e = Exited EXIT_FAILURE \<and> sup_gave_up v s0 t
          | Inr p \<Rightarrow> sup_inv v s0 p t" by (simp add: sup_sound_def)
        with z(2) IH show ?thesis by (cases z) (auto simp: P_def)
      qed
    qed
  qed
  with i show ?thesis by (cases x) (simp_all add: P_def)
qed


section \<open>The whole supervisor\<close>

text \<open>The bytes of a message.\<close>

definition message_bytes :: "SandboxMessageType \<Rightarrow> bytes \<Rightarrow> bytes" where
  "message_bytes ty payload = enc_header \<lparr>msg_type = msg_code ty, payload_size = word_of_nat (length payload)\<rparr> @ payload"

lemma send_message_bytes:
  assumes "send_message K fd ty payload s = Some (True, s')" "length payload < 2 ^ 32"
  shows "\<exists>new. emits s new s' \<and> (\<forall>x \<in> set new. writes_to fd (fst x)) \<and> put_on fd new = message_bytes ty payload"
proof -
  let ?h = "enc_header \<lparr>msg_type = msg_code ty, payload_size = word_of_nat (length payload)\<rparr>"
  obtain t where t: "write_all K fd ?h s = Some (True, t)" "write_all K fd payload t = Some (True, s')"
  proof (cases "payload = []")
    case True
    with assms(1) that show ?thesis by (auto simp: send_message_def Let_def elim!: bind_SomeE split: if_splits)
  next
    case False
    have "(word_of_nat (length payload) :: u32) \<noteq> 0"
    proof
      assume "(word_of_nat (length payload) :: u32) = 0"
      then have "2 ^ 32 dvd length payload" by (simp add: word_of_nat_eq_0_iff)
      with assms(2) False show False by (auto dest: dvd_imp_le)
    qed
    with assms(1) that show ?thesis by (auto simp: send_message_def Let_def elim!: bind_SomeE split: if_splits)
  qed
  obtain n1 n2 where "emits s n1 t" "\<forall>x \<in> set n1. writes_to fd (fst x)" "put_on fd n1 = ?h"
    "emits t n2 s'" "\<forall>x \<in> set n2. writes_to fd (fst x)" "put_on fd n2 = payload"
    using write_all_Some [OF t(1)] write_all_Some [OF t(2)] by blast
  then show ?thesis by (intro exI [of _ "n1 @ n2"]) (auto simp: message_bytes_def intro: emits_trans)
qed

definition sup_env_of :: "int \<Rightarrow> SandboxProcess \<Rightarrow> Sandbox \<Rightarrow> sup_env" where
  "sup_env_of cfd process sb =
     \<lparr>child_pid = host_pid process, sup_cfd = cfd, sup_sfd = status_fd process, sup_path = cgroup_path sb\<rparr>"

lemma sup_env_of_simps [simp]:
  "child_pid (sup_env_of cfd process sb) = host_pid process" "sup_cfd (sup_env_of cfd process sb) = cfd"
  "sup_sfd (sup_env_of cfd process sb) = status_fd process" "sup_path (sup_env_of cfd process sb) = cgroup_path sb"
  by (simp_all add: sup_env_of_def)

lemma initial_sup_inv: "sup_inv (sup_env_of cfd process sb) s (initial_supervisor process sb) s"
  by (auto simp: sup_inv_def sup_agrees_def initial_supervisor_def valid_rusage_def zero_rusage_def intro!: exI [of _ "[]"])

text \<open>Writing messages leaves the child alone.\<close>

lemma writes_harmless:
  assumes "\<forall>x \<in> set new. writes_to fd (fst x)"
  shows "closes fd' new = 0" "reaped pid new = 0" "\<forall>x \<in> set new. \<not> signals pid (fst x)"
  using assms by (auto simp: closes_def reaped_def filter_empty_conv io_iff signals_def dest!: bspec)


lemma length_enc_terminated: "valid_rusage (usage t) \<Longrightarrow> length (enc_terminated t) = sizeof_terminated"
  by (simp add: enc_terminated_def sizeof_defs length_enc_rusage)

lemma supervise_submission_core:
  assumes v: "v = sup_env_of cfd process sb" and f: "sup_fit K v" and run: "supervise_submission K cfd process sb s = Some (e, s')"
  shows "\<exists>l0 t. emits s l0 t \<and> (\<forall>x \<in> set l0. writes_to cfd (fst x)) \<and>
    (e = Exited EXIT_FAILURE \<and> sup_gave_up v t s' \<or>
     (\<exists>log p sent rep d. emits t (log @ rep @ [(Close cfd, d)]) s' \<and> sup_agrees v p log \<and> sup_done v p log \<and>
        (\<forall>x \<in> set rep. writes_to cfd (fst x)) \<and> e = Exited (if sent then EXIT_SUCCESS else EXIT_FAILURE) \<and>
        put_on cfd l0 = message_bytes Ready (enc_ready (ready_payload process)) \<and>
        (sent \<longrightarrow> put_on cfd rep = message_bytes Terminated (enc_terminated
          \<lparr>wait_status = (if has_forwarded_status p then forwarded_child_status p else sup_status p), usage = sup_usage p\<rparr>))))"
proof -
  let ?p = "initial_supervisor process sb"
  from run obtain sent t where se: "send_message K cfd Ready (enc_ready (ready_payload process)) s = Some (sent, t)"
    unfolding supervise_submission_def Let_def by (auto elim!: bind_SomeE)
  obtain l0 where l0: "emits s l0 t" "\<forall>x \<in> set l0. writes_to cfd (fst x)"
    using send_message_only [OF se] unfolding only_def by blast
  have i: "sup_inv v t ?p t" and cfd: "sup_cfd v = cfd" using initial_sup_inv by (simp_all add: v)
  have nf: "\<not> sup_finished ?p" by (simp add: initial_supervisor_def)
  show ?thesis
  proof (cases sent)
    case False
    obtain x s1 where x: "cleanup_supervisor_failure K cfd ?p (sup_termination_requested ?p) t = Some (x, s1)"
      "(case x of Inl e \<Rightarrow> Some (e, s1) | Inr p \<Rightarrow> report_terminated K cfd p s1) = Some (e, s')"
      using run se False unfolding supervise_submission_def Let_def by (auto elim!: bind_SomeE)
    with sup_sound_failure [OF f i nf, of "sup_termination_requested ?p"] failure_ends [OF x(1)] have "e = Exited EXIT_FAILURE" "sup_gave_up v t s'"
      by (auto simp: sup_sound_def cfd)
    with l0 show ?thesis by blast
  next
    case True
    obtain x s1 where x: "supervise K cfd ?p t = Some (x, s1)"
      "(case x of Inl e \<Rightarrow> Some (e, s1) | Inr p \<Rightarrow> report_terminated K cfd p s1) = Some (e, s')"
      using run se True unfolding supervise_submission_def Let_def by (auto elim!: bind_SomeE)
    note sound = supervise_sound [OF f i x(1) [folded cfd]]
    show ?thesis
    proof (cases x)
      case (Inl y)
      with sound x(2) l0 show ?thesis by auto
    next
      case (Inr p)
      with sound obtain log where log: "emits t log s1" "sup_agrees v p log" "sup_done v p log" unfolding sup_inv_def by auto
      let ?m = "\<lparr>wait_status = (if has_forwarded_status p then forwarded_child_status p else sup_status p), usage = sup_usage p\<rparr>"
      have "waited_pid p \<noteq> - 1" using log(3) f by (auto simp: sup_done_def sup_fit_def)
      with x(2) Inr obtain sent' s2 where r: "send_message K cfd Terminated (enc_terminated ?m) s1 = Some (sent', s2)"
        "e = Exited (if sent' then EXIT_SUCCESS else EXIT_FAILURE)" "s' = do_sys K (Close cfd) s2"
        unfolding report_terminated_def Let_def by (auto elim!: bind_SomeE)
      have len: "length (enc_terminated ?m) < 2 ^ 32"
        using log(2) by (subst length_enc_terminated) (simp_all add: sup_agrees_def sizeof_defs)
      obtain rep where rep: "emits s1 rep s2" "\<forall>x \<in> set rep. writes_to cfd (fst x)"
        "sent' \<longrightarrow> put_on cfd rep = message_bytes Terminated (enc_terminated ?m)"
      proof (cases sent')
        case True
        with r(1) have "send_message K cfd Terminated (enc_terminated ?m) s1 = Some (True, s2)" by simp
        from send_message_bytes [OF this len] that show ?thesis by blast
      next
        case False
        with send_message_only [OF r(1)] that show ?thesis unfolding only_def by blast
      qed
      obtain d where d: "emits s2 [(Close cfd, d)] s'" unfolding r(3) emits_def by simp
      have "length (enc_ready (ready_payload process)) < 2 ^ 32" by (simp add: enc_ready_def)
      with send_message_bytes [of K cfd Ready _ s t] se True l0(1) have "put_on cfd l0 = message_bytes Ready (enc_ready (ready_payload process))"
        by (fastforce simp: emits_def)
      moreover have "emits t (log @ rep @ [(Close cfd, d)]) s'" using emits_trans [OF log(1) emits_trans [OF rep(1) d]] .
      ultimately show ?thesis using l0 log(2,3) rep(2,3) r(2) by blast
    qed
  qed
qed

lemma supervisor_reported:
  assumes "sup_fit K (sup_env_of cfd process sb)"
    "supervise_submission K cfd process sb s = Some (Exited EXIT_SUCCESS, s')"
  shows "\<exists>new r t. emits s new s' \<and> closes cfd new = 1 \<and> reaped (host_pid process) new = 1 \<and>
    put_on cfd new = message_bytes Ready (enc_ready (ready_payload process)) @ message_bytes Terminated (enc_terminated t) \<and>
    (Wait4 (host_pid process) WNOHANG, r) \<in> set new \<and> rv r = host_pid process \<and> usage t = reply_rusage r \<and> valid_rusage (usage t) \<and>
    (wait_status t = reply_status r \<or> forwarded (status_fd process) (wait_status t) new) \<and> let_go (cgroup_path sb) new"
proof -
  let ?v = "sup_env_of cfd process sb"
  from supervise_submission_core [OF refl assms] obtain l0 t log p rep d where
    c: "emits s l0 t" "\<forall>x \<in> set l0. writes_to cfd (fst x)" "emits t (log @ rep @ [(Close cfd, d)]) s'" "sup_agrees ?v p log"
    "sup_done ?v p log" "\<forall>x \<in> set rep. writes_to cfd (fst x)"
    "put_on cfd l0 = message_bytes Ready (enc_ready (ready_payload process))"
    "put_on cfd rep = message_bytes Terminated (enc_terminated
      \<lparr>wait_status = (if has_forwarded_status p then forwarded_child_status p else sup_status p), usage = sup_usage p\<rparr>)"
    by auto
  let ?new = "l0 @ log @ rep @ [(Close cfd, d)]"
  from c(5) obtain r where r: "(Wait4 (host_pid process) WNOHANG, r) \<in> set log" "rv r = host_pid process"
    "sup_usage p = reply_rusage r" "\<not> has_forwarded_status p \<longrightarrow> sup_status p = reply_status r" by (auto simp: sup_done_def)
  note w = writes_harmless [OF c(2)] writes_harmless [OF c(6)]
  have fw: "forwarded (status_fd process) (forwarded_child_status p) ?new" if "has_forwarded_status p"
  proof -
    have "forwarded (status_fd process) (forwarded_child_status p) log" using c(4) that by (simp add: sup_agrees_def)
    moreover have "got_from (status_fd process) l0 = []" using c(2) by (auto intro!: got_from_none simp: io_iff dest!: bspec)
    ultimately show ?thesis using forwarded_append [of "status_fd process" _ log "rep @ [(Close cfd, d)]"]
      by (simp add: forwarded_def)
  qed
  have lg: "let_go (cgroup_path sb) ?new"
    using c(5) by (auto simp: sup_done_def let_go_def)
  have "emits s ?new s'" using emits_trans [OF c(1,3)] .
  moreover have "closes cfd ?new = 1" "reaped (host_pid process) ?new = 1" using c(4,5) w by (simp_all add: sup_agrees_def sup_done_def)
  moreover have "put_on cfd ?new = message_bytes Ready (enc_ready (ready_payload process)) @ message_bytes Terminated (enc_terminated
      \<lparr>wait_status = (if has_forwarded_status p then forwarded_child_status p else sup_status p), usage = sup_usage p\<rparr>)"
    using c(4,7,8) by (simp add: sup_agrees_def)
  moreover have "valid_rusage (sup_usage p)" using c(4) by (simp add: sup_agrees_def)
  ultimately show ?thesis using r fw lg
    by (intro exI [of _ ?new] exI [of _ r] exI [of _ "\<lparr>wait_status = (if has_forwarded_status p then forwarded_child_status p
      else sup_status p), usage = sup_usage p\<rparr>"]) auto
qed

text \<open>
  C11. The supervisor's report. When the supervisor exits successfully it has sent exactly two messages, \<open>Ready\<close>
  and then \<open>Terminated\<close>; it reaped the submission exactly once, before the report, which carries the resource usage of
  that wait and its status or the status the submission's parent forwarded over the status pipe; and it removed
  the cgroup, or gave it up because the kernel no longer knew it or refused to let it be removed or killed.
\<close>

theorem supervisor_reports:
  assumes "sup_fit K (sup_env_of cfd process sb)"
    "supervise_submission K cfd process sb s = Some (Exited EXIT_SUCCESS, s')"
  shows "\<exists>new r t. emits s new s' \<and> closes cfd new = 1 \<and> reaped (host_pid process) new = 1 \<and>
    put_on cfd new = message_bytes Ready (enc_ready (ready_payload process)) @ message_bytes Terminated (enc_terminated t) \<and>
    (Wait4 (host_pid process) WNOHANG, r) \<in> set new \<and> rv r = host_pid process \<and> usage t = reply_rusage r \<and>
    (wait_status t = reply_status r \<or> forwarded (status_fd process) (wait_status t) new) \<and> let_go (cgroup_path sb) new"
  using supervisor_reported [OF assms] by blast

text \<open>
  C12. No submission outlives its supervisor unwatched, and no stranger is killed. However the supervisor ends, it has
  reaped the submission, or killed it and waited for it; it never signals the submission's pid after reaping it; and
  its last call closes the control channel, for the first time.
\<close>

theorem supervisor_ends_child:
  assumes "sup_fit K (sup_env_of cfd process sb)" "supervise_submission K cfd process sb s = Some (e, s')"
  shows "\<exists>log d code. e = Exited code \<and> emits s (log @ [(Close cfd, d)]) s' \<and> closes cfd log = 0 \<and>
    pid_safe (host_pid process) log \<and> reaped (host_pid process) log \<le> 1 \<and>
    (reaped (host_pid process) log = 1 \<or>
     (\<exists>a b c k r. log = a @ (Kill (host_pid process) SIGKILL, k) # b @ (Wait4 (host_pid process) Blocking, r) # c))"
proof -
  let ?v = "sup_env_of cfd process sb" and ?h = "host_pid process"
  from supervise_submission_core [OF refl assms] obtain l0 t where l0: "emits s l0 t" "\<forall>x \<in> set l0. writes_to cfd (fst x)"
    and or: "(e = Exited EXIT_FAILURE \<and> sup_gave_up ?v t s') \<or>
      (\<exists>log p sent rep d. emits t (log @ rep @ [(Close cfd, d)]) s' \<and> sup_agrees ?v p log \<and> sup_done ?v p log \<and>
        (\<forall>x \<in> set rep. writes_to cfd (fst x)) \<and> e = Exited (if sent then EXIT_SUCCESS else EXIT_FAILURE))"
    by blast
  note w = writes_harmless [OF l0(2)]
  from or show ?thesis
  proof (elim disjE exE conjE)
    assume e: "e = Exited EXIT_FAILURE" and "sup_gave_up ?v t s'"
    then obtain n1 n2 d where n: "emits t (n1 @ n2 @ [(Close cfd, d)]) s'" "closes cfd (n1 @ n2) = 0" "reaped ?h n1 = 0"
      "reaped ?h n2 \<le> 1" "\<forall>x \<in> set n2. \<not> signals ?h (fst x)"
      "reaped ?h n2 = 1 \<or> (\<exists>k r. (Kill ?h SIGKILL, k) \<in> set n1 \<and> (Wait4 ?h Blocking, r) \<in> set n2)"
      unfolding sup_gave_up_def by auto
    let ?log = "(l0 @ n1) @ n2"
    have "emits s (?log @ [(Close cfd, d)]) s'" using emits_trans [OF l0(1) n(1)] by simp
    moreover have "pid_safe ?h ?log" using n(3,5) w(2) by (intro pid_safe_split) auto
    moreover have "\<exists>a b c k r. ?log = a @ (Kill ?h SIGKILL, k) # b @ (Wait4 ?h Blocking, r) # c" if "reaped ?h n2 \<noteq> 1"
    proof -
      from n(6) that obtain k r a b a' b' where "n1 = a @ (Kill ?h SIGKILL, k) # b" "n2 = a' @ (Wait4 ?h Blocking, r) # b'"
        by (auto dest!: split_list)
      then have "?log = (l0 @ a) @ (Kill ?h SIGKILL, k) # (b @ a') @ (Wait4 ?h Blocking, r) # b'" by simp
      then show ?thesis by blast
    qed
    ultimately show ?thesis using e n(2-4) w by (intro exI [of _ ?log] exI [of _ d]) auto
  next
    fix log p sent rep d
    assume c: "emits t (log @ rep @ [(Close cfd, d)]) s'" "sup_agrees ?v p log" "sup_done ?v p log"
      "\<forall>x \<in> set rep. writes_to cfd (fst x)" "e = Exited (if sent then EXIT_SUCCESS else EXIT_FAILURE)"
    let ?log = "l0 @ log @ rep"
    have "emits s (?log @ [(Close cfd, d)]) s'" using emits_trans [OF l0(1) c(1)] by simp
    moreover have "\<forall>x \<in> set ?log. \<not> signals ?h (fst x)"
      using c(2) w(3) writes_harmless(3) [OF c(4)] by (auto simp: sup_agrees_def)
    then have "pid_safe ?h ?log" using pid_safe_split [of ?h "[]" ?log] by simp
    moreover have "reaped ?h ?log = 1" "closes cfd ?log = 0"
      using c(2,3) w writes_harmless [OF c(4)] by (simp_all add: sup_agrees_def sup_done_def)
    ultimately show ?thesis using c(5) by (intro exI [of _ ?log] exI [of _ d]) auto
  qed
qed

section \<open>A concrete supervisor\<close>

text \<open>
  A world in which the submission can be reaped after as many looks as the kernel's state says. There is no kill
  file in the cgroup; every other request is granted.
\<close>

fun steady_kernel :: "nat kernel" where
  "steady_kernel (Write fd bs) w = (Ret (length bs), w)"
| "steady_kernel (Read fd n) w = (Data [], w)"
| "steady_kernel (Poll fds t) w = (Events 0 [0, 0], w)"
| "steady_kernel (Open path mode) w = (Fail ENOENT, w)"
| "steady_kernel (Wait4 pid mode) (Suc w) = (Ret 0, w)"
| "steady_kernel (Wait4 pid mode) 0 = (if 0 < pid then (Waited (nat pid) 0 zero_rusage, 0) else (Fail ESRCH, 0))"
| "steady_kernel _ w = (Ret 0, w)"

definition demo_process :: SandboxProcess where
  "demo_process = \<lparr>host_pid = 101, namespace_pid = 1, status_fd = 5\<rparr>"

lemma steady_fit: "sup_fit steady_kernel (sup_env_of 4 demo_process demo_sandbox)"
proof -
  have "valid_rusage (reply_rusage (fst (steady_kernel (Wait4 pid mode) w)))" for pid mode w
    by (cases w) (auto simp: valid_rusage_def zero_rusage_def)
  then show ?thesis by (auto simp: sup_fit_def honest_def demo_process_def)
qed

lemma steady_send:
  fixes s :: "nat proc"
  shows "\<exists>s'. send_message steady_kernel fd ty payload s = Some (True, s') \<and> world s' = world s"
proof -
  have w: "\<exists>s'. write_all steady_kernel fd bs s = Some (True, s') \<and> world s' = world s" for bs s
    by (cases bs) (simp_all add: write_all_unfold sys_eval)
  obtain t where t: "write_all steady_kernel fd (enc_header \<lparr>msg_type = msg_code ty, payload_size = word_of_nat (length payload)\<rparr>) s =
      Some (True, t)" "world t = world s" using w by blast
  from w [of payload t] t show ?thesis by (auto simp: send_message_def Let_def)
qed

lemma steady_round_1: "world s = 1 \<Longrightarrow> \<exists>s'. supervise_round steady_kernel 4 (initial_supervisor demo_process demo_sandbox) s =
    Some (Inr ((initial_supervisor demo_process demo_sandbox)\<lparr>waited_pid := 0\<rparr>), s') \<and> world s' = 0 \<and>
    put_on 4 (calls s') = put_on 4 (calls s)"
  by (simp add: put_on_def supervise_round_def handle_reap_def initial_supervisor_def demo_process_def has_flag_def sys_eval cong: demo_congs)

lemma steady_round_2: "world s = 0 \<Longrightarrow>
   \<exists>p s'. supervise_round steady_kernel 4 ((initial_supervisor demo_process demo_sandbox)\<lparr>waited_pid := 0\<rparr>) s =
    Some (Inr p, s') \<and> sup_finished p \<and> waited_pid p = 101 \<and> \<not> has_forwarded_status p \<and> sup_status p = 0 \<and>
    sup_usage p = zero_rusage \<and> put_on 4 (calls s') = put_on 4 (calls s)"
  by (simp add: put_on_def supervise_round_def handle_reap_def initial_supervisor_def demo_process_def has_flag_def close_status_def
    cleanupCgroup_def demo_sandbox_def numeral_eq_Suc sys_eval cong: demo_congs)

lemma demo_supervisor: "\<exists>s'. supervise_submission steady_kernel 4 demo_process demo_sandbox (boot 1) = Some (Exited EXIT_SUCCESS, s') \<and>
  put_on 4 (calls s') = message_bytes Ready (enc_ready (ready_payload demo_process)) @
    message_bytes Terminated (enc_terminated \<lparr>wait_status = 0, usage = zero_rusage\<rparr>)"
proof -
  let ?p = "initial_supervisor demo_process demo_sandbox"
  let ?t = "\<lparr>wait_status = 0, usage = zero_rusage\<rparr>"
  from steady_send [of 4 Ready _ "boot 1"] obtain s1 where s1: "send_message steady_kernel 4 Ready (enc_ready (ready_payload demo_process)) (boot 1) = Some (True, s1)"
    "world s1 = 1" by (fastforce simp: boot_simps)
  from steady_round_1 [OF s1(2)] obtain s2 where s2: "supervise_round steady_kernel 4 ?p s1 = Some (Inr (?p\<lparr>waited_pid := 0\<rparr>), s2)"
    "world s2 = 0" "put_on 4 (calls s2) = put_on 4 (calls s1)" by blast
  from steady_round_2 [OF s2(2)] obtain p s3 where s3: "supervise_round steady_kernel 4 (?p\<lparr>waited_pid := 0\<rparr>) s2 = Some (Inr p, s3)"
    "sup_finished p" "waited_pid p = 101" "\<not> has_forwarded_status p" "sup_status p = 0" "sup_usage p = zero_rusage"
    "put_on 4 (calls s3) = put_on 4 (calls s2)" by blast
  have nf: "\<not> sup_finished ?p" by (simp add: initial_supervisor_def)
  have sup: "supervise steady_kernel 4 ?p s1 = Some (Inr p, s3)"
    using s2 s3 nf by (simp add: supervise.simps [of _ _ ?p] supervise.simps [of _ _ "?p\<lparr>waited_pid := 0\<rparr>"] supervise.simps [of _ _ p])
  obtain s4 where s4: "send_message steady_kernel 4 Terminated (enc_terminated ?t) s3 = Some (True, s4)"
    using steady_send by blast
  then have rep: "report_terminated steady_kernel 4 p s3 = Some (Exited EXIT_SUCCESS, do_sys steady_kernel (Close 4) s4)"
    using s3 by (simp add: report_terminated_def)
  have "length (enc_ready (ready_payload demo_process)) < 2 ^ 32" "length (enc_terminated ?t) < 2 ^ 32"
    by (simp_all add: enc_ready_def enc_terminated_def length_enc_rusage valid_rusage_def zero_rusage_def)
  with send_message_bytes [OF s1(1)] send_message_bytes [OF s4] s2(3) s3(7)
  have "put_on 4 (calls (do_sys steady_kernel (Close 4) s4)) =
      message_bytes Ready (enc_ready (ready_payload demo_process)) @ message_bytes Terminated (enc_terminated ?t)"
    by (auto simp: emits_def boot_simps put_on_def)
  with s1 sup rep show ?thesis by (simp add: supervise_submission_def)
qed

theorem supervisor_reports_witness:
  "\<exists>s' new t. supervise_submission steady_kernel 4 demo_process demo_sandbox (boot 1) = Some (Exited EXIT_SUCCESS, s') \<and>
     emits (boot 1) new s' \<and> reaped 101 new = 1 \<and>
     put_on 4 new = message_bytes Ready (enc_ready (ready_payload demo_process)) @ message_bytes Terminated (enc_terminated t)"
proof -
  obtain s' where s': "supervise_submission steady_kernel 4 demo_process demo_sandbox (boot 1) = Some (Exited EXIT_SUCCESS, s')"
    using demo_supervisor by blast
  from supervisor_reports [OF steady_fit s'] s' show ?thesis by (auto simp: demo_process_def)
qed

theorem supervisor_ends_child_witness:
  "\<exists>s' log d. supervise_submission steady_kernel 4 demo_process demo_sandbox (boot 1) = Some (Exited EXIT_SUCCESS, s') \<and>
     emits (boot 1) (log @ [(Close 4, d)]) s' \<and> pid_safe 101 log \<and> reaped 101 log \<le> 1"
proof -
  obtain s' where s': "supervise_submission steady_kernel 4 demo_process demo_sandbox (boot 1) = Some (Exited EXIT_SUCCESS, s')"
    using demo_supervisor by blast
  from supervisor_ends_child [OF steady_fit s'] s' show ?thesis by (auto simp: demo_process_def)
qed

end
