(* ===== verification/Supervisor_Liveness.thy ===== *)
theory Supervisor_Liveness
  imports Supervisor_Correct Returning
begin

text \<open>
  Total correctness of the supervisor and of the sandbox operations it calls: over a patient kernel every operation
  returns, and the supervisor's loop ends when submissions are mortal. Without a cgroup it does nothing to end one.
\<close>

section \<open>The supervisor's operations return\<close>

lemma returns_triple_sys:
  assumes "patient K m" "below m n s" "sys K c s = (r, t)"
  shows "below m n t"
  using patient_sys [OF assms(1,3)] assms(2) by (simp add: below_def)

lemma cgroup_ops_below:
  assumes pat: "patient K m" and s: "below m n s"
  shows "terminate K sb s = (ok, sb', t) \<Longrightarrow> below m n t"
    "cleanup_retries K k sb s = (ok, sb', t) \<Longrightarrow> below m n t"
    "cleanupCgroup K sb s = (ok, sb', t) \<Longrightarrow> below m n t"
    "addProcessToCgroup K pid sb s = (res, sb', t) \<Longrightarrow> below m n t"
proof -
  note d = patient_do_sys [OF pat] and y = returns_triple_sys [OF pat]
  show "terminate K sb s = (ok, sb', t) \<Longrightarrow> below m n t"
    using s by (auto simp: terminate_def Let_def split: if_splits prod.splits intro: d dest!: y [rotated])
  show r: "cleanup_retries K k sb s = (ok, sb', t) \<Longrightarrow> below m n t" for k
    using s
  proof (induction k arbitrary: s)
    case (Suc k)
    obtain r s1 where 1: "sys K (Rmdir (cgroup_path sb)) s = (r, s1)" by fastforce
    with Suc y [OF _ 1] d show ?case by (auto split: if_splits)
  qed auto
  show "cleanupCgroup K sb s = (ok, sb', t) \<Longrightarrow> below m n t"
    using s r by (auto simp: cleanupCgroup_def split: if_splits)
  show "addProcessToCgroup K pid sb s = (res, sb', t) \<Longrightarrow> below m n t"
    using s by (auto simp: addProcessToCgroup_def Let_def split: if_splits prod.splits intro: d dest!: y [rotated])
qed

lemma returns_cgroup_ops [returns_intros]:
  assumes "patient K m" "below m n s" "\<And>a sb s. below m n s \<Longrightarrow> returns m n st (f a sb s)"
  shows "returns m n st (case terminate K sb s of (a, sb, s) \<Rightarrow> f a sb s)"
    "returns m n st (case cleanupCgroup K sb s of (a, sb, s) \<Rightarrow> f a sb s)"
  using assms(3) cgroup_ops_below [OF assms(1,2)] by (auto split: prod.splits)

lemma returns_add_process [returns_intros]:
  assumes "patient K m" "below m n s" "\<And>a sb s. below m n s \<Longrightarrow> returns m n st (f a sb s)"
  shows "returns m n st (case addProcessToCgroup K pid sb s of (a, sb, s) \<Rightarrow> f a sb s)"
  using assms(3) cgroup_ops_below [OF assms(1,2)] by (auto split: prod.splits)

lemma returns_pairs [returns_intros]:
  assumes "below m n (snd y)" "below m n (snd z)" "\<And>p s. below m n s \<Longrightarrow> returns m n st (g p s)"
  shows "returns m n st (case if c then y else z of (p, s) \<Rightarrow> g p s)"
  using assms by (auto split: prod.splits)

lemma close_status_below [returns_intros]:
  "patient K m \<Longrightarrow> below m n s \<Longrightarrow> below m n (snd (close_status K p s))"
  by (simp add: close_status_def patient_do_sys)

lemma returns_close_status [returns_intros]:
  assumes "patient K m" "below m n s" "\<And>p s. below m n s \<Longrightarrow> returns m n st (g p s)"
  shows "returns m n st (case close_status K p s of (p, s) \<Rightarrow> g p s)"
  using assms by (simp add: close_status_def patient_do_sys)

lemma below_snd [returns_intros]: "below m n s \<Longrightarrow> below m n (snd (p, s))"
  by simp

lemma terminate_below [returns_intros]:
  "patient K m \<Longrightarrow> below m n s \<Longrightarrow> below m n (snd (case terminate K sb s of (a, sb, s) \<Rightarrow> (g a sb, s)))"
  using cgroup_ops_below(1) by (fastforce split: prod.splits)











section \<open>The loop returns\<close>






section \<open>The whole supervisor returns\<close>



lemma failSetup_returns [returns_intros]: "patient K m \<Longrightarrow> below m n s \<Longrightarrow> returns m n snd (failSetup K fd stage e s)"
  unfolding failSetup_def Let_def by (assumption | rule returns_intros)+

lemmas [returns_intros] = returns_bind [OF failSetup_returns]



lemma write_proc_file_returns: "patient K m \<Longrightarrow> below m n s \<Longrightarrow> returns m n snd (write_proc_file K cfd path content s)"
  unfolding write_proc_file_def Let_def by (assumption | rule returns_intros)+

lemma setupUserNamespace_returns: "patient K m \<Longrightarrow> below m n s \<Longrightarrow> returns m n snd (setupUserNamespace K cfd s)"
  unfolding setupUserNamespace_def
  by (assumption | rule returns_intros returns_bind [OF write_proc_file_returns] write_proc_file_returns)+

lemma require_returns: "patient K m \<Longrightarrow> below m n s \<Longrightarrow> returns m n snd (require K fd stage c s)"
  unfolding require_def by (assumption | rule returns_intros)+

lemma require_all_returns: "patient K m \<Longrightarrow> below m n s \<Longrightarrow> returns m n snd (require_all K fd stage cs s)"
proof (induction cs arbitrary: s)
  case (Cons c cs)
  then show ?case unfolding require_all.simps
    by - (assumption | rule Cons.IH returns_intros returns_bind [OF require_returns])+
qed (simp add: returns_def)

lemmas [returns_intros] = returns_bind [OF require_returns] returns_bind [OF require_all_returns]
  returns_bind [OF setupUserNamespace_returns]


lemma bind_dirs_below [returns_intros]: "patient K m \<Longrightarrow> below m n s \<Longrightarrow> below m n (bind_dirs K root dirs s)"
proof (induction dirs arbitrary: s)
  case (Cons dir dirs)
  obtain r t where r: "sys K (Mount (Some dir) (root @ dir) None [MS_BIND, MS_REC]) (do_sys K (Mkdir (root @ dir) mode_755) s) = (r, t)"
    by fastforce
  have "below m n t" using returns_triple_sys [OF Cons.prems(1) patient_do_sys [OF Cons.prems] r] .
  with r Cons show ?case by (simp add: Let_def patient_do_sys)
qed simp










lemma close_pair_below [returns_intros]: "patient K m \<Longrightarrow> below m n s \<Longrightarrow> below m n (close_pair K p s)"
  by (simp add: close_pair_def patient_do_sys)



lemma returns_map [returns_intros]: "returns m n snd x \<Longrightarrow> returns m n snd (map_option (apfst f) x)"
  by (auto simp: returns_def)







section \<open>A request to terminate without a cgroup\<close>

text \<open>
  C31. A sandbox that has no cgroup ignores \<open>Terminate\<close>. When the supervisor handles a control message and goes on,
  it has read the message and done nothing else: no signal, no write, only the note that termination was requested. The
  submission is left to end by itself.
\<close>

theorem terminate_ignored_without_cgroup:
  assumes "cgroup_path (sup_sandbox p) = []" "handle_control K cfd p s = Some (Inr q, t)"
  shows "q = p\<lparr>sup_termination_requested := True\<rparr> \<and> only (reads_from cfd) s t"
proof -
  from assms(2) obtain ok bs u where r: "read_all K cfd sizeof_header s = Some ((ok, bs), u)"
    unfolding handle_control_def by (auto elim!: bind_SomeE)
  have "terminate K (sup_sandbox p) u = (True, sup_sandbox p, u)" using assms(1) by (simp add: terminate_def)
  with assms(2) r have "t = u \<and> (q = p\<lparr>sup_termination_requested := True\<rparr> \<or> sup_termination_requested p \<and> q = p)"
    unfolding handle_control_def Let_def
    by (auto simp del: msg_code.simps split: if_splits dest!: failure_ends)
  moreover have "sup_termination_requested p \<Longrightarrow> p = p\<lparr>sup_termination_requested := True\<rparr>" by (cases p) simp
  ultimately have "t = u" "q = p\<lparr>sup_termination_requested := True\<rparr>" by auto
  with read_all_only [OF r] show ?thesis by simp
qed

text \<open>
  A submission that lives until it is sent a signal or its cgroup's kill file, descriptor 20 here, is written. The
  kernel's state is what the control socket still holds and whether the submission is alive.
\<close>

fun idle_kernel :: "(bytes \<times> bool) kernel" where
  "idle_kernel (Write fd bs) (w, alive) = (Ret (length bs), (w, alive \<and> fd \<noteq> 20))"
| "idle_kernel (Read fd n) (w, alive) = (Data (take n w), (drop n w, alive))"
| "idle_kernel (Poll fds t) (w, alive) = (if w = [] then Events 0 [0, 0] else Events 1 [POLLIN, 0], (w, alive))"
| "idle_kernel (Open path mode) w = (Ret 20, w)"
| "idle_kernel (Kill pid sig) (w, alive) = (Ret 0, (w, False))"
| "idle_kernel (Wait4 pid mode) (w, alive) = (if alive then Ret 0 else Waited (nat pid) SIGKILL zero_rusage, (w, alive))"
| "idle_kernel _ w = (Ret 0, w)"

abbreviation uncontained :: "supervisor \<Rightarrow> bool" where
  "uncontained p \<equiv> cgroup_path (sup_sandbox p) = [] \<and> 0 < host_pid (sup_process p) \<and> \<not> sup_finished p"

lemma idle_reap:
  "uncontained p \<Longrightarrow> \<exists>q t. handle_reap idle_kernel cfd p s = Some (Inr q, t) \<and> uncontained q \<and> world t = world s"
  if "snd (world s)" using that
  by (cases "world s") (auto simp: handle_reap_def sys_eval cong: demo_congs)

lemma idle_request:
  assumes "uncontained p" "world s = (message_bytes Terminate [], alive)"
  shows "\<exists>t. handle_control idle_kernel cfd p s = Some (Inr (p\<lparr>sup_termination_requested := True\<rparr>), t) \<and> world t = ([], alive)"
proof -
  let ?h = "\<lparr>msg_type = msg_code Terminate, payload_size = 0\<rparr>"
  have len: "length (enc_header ?h) = 8" by (simp add: enc_header_def)
  have "\<exists>t. read_all idle_kernel cfd sizeof_header s = Some ((True, enc_header ?h), t) \<and> world t = ([], alive)"
    using assms(2) len
    by (simp add: message_bytes_def read_all_def read_loop_unfold sys_eval sizeof_header_def del: msg_code.simps cong: demo_congs)
  then obtain t where t: "read_all idle_kernel cfd sizeof_header s = Some ((True, enc_header ?h), t)" "world t = ([], alive)" by blast
  have "p = p\<lparr>sup_termination_requested := True\<rparr>" if "sup_termination_requested p" using that by (cases p) simp
  with t assms(1) show ?thesis
    by (auto simp: handle_control_def terminate_def header_codec.dec_enc Let_def)
qed

lemma idle_round:
  assumes "uncontained p" "world s \<in> {(message_bytes Terminate [], True), ([], True)}"
  shows "\<exists>q t. supervise_round idle_kernel cfd p s = Some (Inr q, t) \<and> uncontained q \<and> world t = ([], True)"
proof -
  let ?c = "Poll [(cfd, POLLIN), (status_poll_fd p, POLLIN)] 10"
  let ?r = "if fst (world s) = [] then Events 0 [0, 0] else Events 1 [POLLIN, 0]"
  have ne: "message_bytes Terminate [] \<noteq> []" by (simp add: message_bytes_def enc_header_def flip: length_0_conv)
  obtain b where b: "world s = (b, True)" using assms(2) by auto
  then have "retry idle_kernel ?c s = Some (?r, do_sys idle_kernel ?c s)"
    by (cases "b = []") (simp_all add: sys_eval cong: demo_congs)
  then obtain s1 where s1: "retry idle_kernel ?c s = Some (?r, s1)" "world s1 = world s"
    using b by (simp add: sys_eval)
  obtain q s2 where q: "(if 0 < rv ?r \<and> has_flag (revents ?r 0) POLLIN then handle_control idle_kernel cfd p s1
      else Some (Inr p, s1)) = Some (Inr q, s2)" "uncontained q" "world s2 = ([], True)"
    using idle_request [OF assms(1), of s1 True cfd] assms s1(2) ne by (auto simp: has_flag_def)
  obtain q' t where "handle_reap idle_kernel cfd q s2 = Some (Inr q', t)" "uncontained q'" "world t = ([], True)"
    using idle_reap [OF _ q(2), of s2 cfd] q(3) by auto
  moreover have "\<not> has_flag (revents ?r 1) (POLLIN OR POLLHUP OR POLLERR)" by (simp add: has_flag_def)
  ultimately show ?thesis using s1 q unfolding supervise_round_def by simp
qed

text \<open>The supervisor looks for the end of that submission for ever.\<close>

lemma idle_hangs:
  assumes "uncontained p" "world s \<in> {(message_bytes Terminate [], True), ([], True)}"
  shows "supervise idle_kernel cfd p s = None"
proof (rule ccontr)
  assume "supervise idle_kernel cfd p s \<noteq> None"
  then obtain y where y: "supervise idle_kernel cfd p s = Some y" by blast
  define P where "P = (\<lambda>(K :: (bytes \<times> bool) kernel) (cfd :: int) p (s :: (bytes \<times> bool) proc) (y :: (proc_end + supervisor) \<times> (bytes \<times> bool) proc).
     K = idle_kernel \<longrightarrow> uncontained p \<longrightarrow> world s \<notin> {(message_bytes Terminate [], True), ([], True)})"
  have "P idle_kernel cfd p s y"
  proof (rule supervise.raw_induct [where P = P, OF _ y])
    fix f :: "(bytes \<times> bool) kernel \<Rightarrow> int \<Rightarrow> supervisor \<Rightarrow> (bytes \<times> bool) proc \<Rightarrow> (bytes \<times> bool) sup_step" and K cfd p s y
    assume IH: "\<And>K cfd p s y. f K cfd p s = Some y \<Longrightarrow> P K cfd p s y"
      and eq: "(if sup_finished p then Some (Inr p, s)
        else do {
          (x, s) \<leftarrow> supervise_round K cfd p s;
          case x of Inl e \<Rightarrow> Some (Inl e, s) | Inr p \<Rightarrow> f K cfd p s
        }) = Some y"
    show "P K cfd p s y" unfolding P_def
    proof (intro impI notI)
      assume K: "K = idle_kernel" and u: "uncontained p" and w: "world s \<in> {(message_bytes Terminate [], True), ([], True)}"
      from idle_round [OF u w] obtain q t where "supervise_round K cfd p s = Some (Inr q, t)" "uncontained q" "world t = ([], True)"
        unfolding K by blast
      with eq u IH [of K cfd q t y] K show False by (simp add: P_def)
    qed
  qed
  with assms show False by (simp add: P_def)
qed

theorem terminate_ignored_without_cgroup_witness:
  "let p = initial_supervisor demo_process (demo_sandbox\<lparr>cgroup_path := []\<rparr>); s = boot (message_bytes Terminate [], True) in
   (\<exists>t. handle_control idle_kernel 4 p s = Some (Inr (p\<lparr>sup_termination_requested := True\<rparr>), t) \<and> only (reads_from 4) s t) \<and>
   supervise idle_kernel 4 p s = None"
proof -
  let ?p = "initial_supervisor demo_process (demo_sandbox\<lparr>cgroup_path := []\<rparr>)"
  let ?s = "boot (message_bytes Terminate [], True)"
  have u: "uncontained ?p" and w: "world ?s = (message_bytes Terminate [], True)"
    by (simp_all add: initial_supervisor_def demo_process_def boot_simps)
  obtain t where t: "handle_control idle_kernel 4 ?p ?s = Some (Inr (?p\<lparr>sup_termination_requested := True\<rparr>), t)"
    using idle_request [OF u w] by blast
  with terminate_ignored_without_cgroup [OF _ t] u idle_hangs [OF u, of ?s 4] w show ?thesis by (simp add: Let_def)
qed

end
