(* ===== verification/Job_Queue.thy ===== *)
theory Job_Queue
  imports Execution_Types "HOL-Library.Multiset"
begin

text \<open>
  The interface \<open>ExecutionQueue\<close> and \<open>SubmissionQueue\<close> share: jobs wait in the order of their
  arrival, a worker takes the front one, works on it and files it with the completed ones; a waiting job
  can be cancelled. The locales state what the queue, a worker and a pool of workers promise, and prove
  once what follows; \<open>Execution_Scheduler\<close> and \<open>Submission_Queue\<close> interpret them.
\<close>

text \<open>The scan of \<open>cancel\<close>: take the first element that satisfies \<open>P\<close> out of a list.\<close>

fun erase_first :: "('j \<Rightarrow> bool) \<Rightarrow> 'j list \<Rightarrow> ('j \<times> 'j list) option" where
  "erase_first P [] = None"
| "erase_first P (j # js) = (if P j then Some (j, js) else map_option (apsnd (Cons j)) (erase_first P js))"

lemma erase_first_None: "erase_first P js = None \<longleftrightarrow> (\<forall>j \<in> set js. \<not> P j)"
  by (induction js) auto

lemma erase_first_Some:
  "erase_first P js = Some (j, rest) \<Longrightarrow>
     \<exists>xs ys. js = xs @ j # ys \<and> rest = xs @ ys \<and> P j \<and> (\<forall>x \<in> set xs. \<not> P x)"
proof (induction js arbitrary: rest)
  case (Cons x js)
  show ?case
  proof (cases "P x")
    case True
    with Cons.prems show ?thesis by (intro exI [of _ "[]"] exI [of _ js]) auto
  next
    case False
    with Cons.prems obtain rest' where r: "erase_first P js = Some (j, rest')" "rest = x # rest'" by auto
    from Cons.IH [OF r(1)] obtain xs ys where
      "js = xs @ j # ys" "rest' = xs @ ys" "P j" "\<forall>x \<in> set xs. \<not> P x" by blast
    with r(2) False show ?thesis by (intro exI [of _ "x # xs"] exI [of _ ys]) auto
  qed
qed simp

text \<open>The jobs of a list worked on one after the other.\<close>

fun work_all :: "('j \<Rightarrow> 's \<Rightarrow> ('j \<times> 's) option) \<Rightarrow> 'j list \<Rightarrow> 's \<Rightarrow> ('j list \<times> 's) option" where
  "work_all work [] s = Some ([], s)"
| "work_all work (j # js) s = do {
     (j', s) \<leftarrow> work j s;
     (js', s) \<leftarrow> work_all work js s;
     Some (j' # js', s)
   }"

lemma length_work_all: "work_all work js s = Some (js', s') \<Longrightarrow> length js' = length js"
  by (induction js arbitrary: s js') (auto elim!: bind_SomeE)

lemma work_all_append:
  "work_all work (xs @ ys) s = Some (js, s') \<Longrightarrow>
     \<exists>as s1 bs. work_all work xs s = Some (as, s1) \<and> work_all work ys s1 = Some (bs, s') \<and> js = as @ bs"
proof (induction xs arbitrary: s js)
  case (Cons x xs)
  then obtain x' s1 zs where x: "work x s = Some (x', s1)" "work_all work (xs @ ys) s1 = Some (zs, s')" "js = x' # zs"
    by (auto elim!: bind_SomeE)
  from Cons.IH [OF x(2)] x show ?case by auto
qed simp

section \<open>Queues\<close>

locale job_queue =
  fixes pending completed :: "'q \<Rightarrow> 'j list"
    and job_id :: "'j \<Rightarrow> u64"
    and cancelled :: "'j \<Rightarrow> 'j"
    and put :: "'j \<Rightarrow> 'q \<Rightarrow> 'q"
    and try_dequeue :: "'q \<Rightarrow> 'j option \<times> 'q"
    and complete :: "'j \<Rightarrow> 'q \<Rightarrow> 'q"
    and cancel :: "u64 \<Rightarrow> 'q \<Rightarrow> bool \<times> 'q"
    and drain :: "'q \<Rightarrow> 'j list \<times> 'q"
  assumes put_pending: "pending (put j q) = pending q @ [j]"
    and put_completed: "completed (put j q) = completed q"
    and dequeue_empty: "pending q = [] \<Longrightarrow> try_dequeue q = (None, q)"
    and dequeue_front: "pending q = j # js \<Longrightarrow>
      \<exists>q'. try_dequeue q = (Some j, q') \<and> pending q' = js \<and> completed q' = completed q"
    and complete_pending: "pending (complete j q) = pending q"
    and complete_completed: "completed (complete j q) = completed q @ [j]"
    and cancel_absent: "erase_first (\<lambda>j. job_id j = i) (pending q) = None \<Longrightarrow> cancel i q = (False, q)"
    and cancel_present: "erase_first (\<lambda>j. job_id j = i) (pending q) = Some (j, js) \<Longrightarrow>
      \<exists>q'. cancel i q = (True, q') \<and> pending q' = js \<and> completed q' = completed q @ [cancelled j]"
    and drain_result: "\<exists>q'. drain q = (completed q, q') \<and> completed q' = [] \<and> pending q' = pending q"
    and cancelled_id: "job_id (cancelled j) = job_id j"
begin

text \<open>First in, first out: what was put after a queue's jobs is dequeued after them.\<close>

definition next_of :: "'q \<Rightarrow> 'q" where
  "next_of q = snd (try_dequeue q)"

lemma dequeue_pending: "pending (next_of q) = tl (pending q)"
proof (cases "pending q")
  case Nil
  then show ?thesis by (simp add: next_of_def dequeue_empty)
next
  case (Cons j js)
  from dequeue_front [OF this] Cons show ?thesis by (auto simp: next_of_def)
qed

lemma pending_after: "pending ((next_of ^^ n) q) = drop n (pending q)"
  by (induction n) (simp_all add: dequeue_pending drop_Suc tl_drop)

lemma fifo_order:
  "fst (try_dequeue ((next_of ^^ n) q)) = (if n < length (pending q) then Some (pending q ! n) else None)"
proof (cases "n < length (pending q)")
  case True
  then have "pending ((next_of ^^ n) q) = pending q ! n # drop (Suc n) (pending q)"
    by (simp add: pending_after Cons_nth_drop_Suc)
  from dequeue_front [OF this] True show ?thesis by auto
next
  case False
  then show ?thesis using dequeue_empty [of "(next_of ^^ n) q"] by (simp add: pending_after)
qed

text \<open>The identifiers a queue holds, in whatever state its jobs are.\<close>

definition ids :: "'q \<Rightarrow> u64 multiset" where
  "ids q = mset (map job_id (pending q)) + mset (map job_id (completed q))"

lemma ids_put: "ids (put j q) = add_mset (job_id j) (ids q)"
  by (simp add: ids_def put_pending put_completed)

lemma ids_complete: "ids (complete j q) = add_mset (job_id j) (ids q)"
  by (simp add: ids_def complete_pending complete_completed)

lemma ids_dequeue: "try_dequeue q = (Some j, q') \<Longrightarrow> ids q = add_mset (job_id j) (ids q')"
proof (cases "pending q")
  case Nil
  then show "try_dequeue q = (Some j, q') \<Longrightarrow> ?thesis" by (simp add: dequeue_empty)
next
  case (Cons k js)
  assume "try_dequeue q = (Some j, q')"
  with dequeue_front [OF Cons] Cons show ?thesis by (auto simp: ids_def)
qed

lemma ids_cancel: "cancel i q = (ok, q') \<Longrightarrow> ids q' = ids q"
proof (cases "erase_first (\<lambda>j. job_id j = i) (pending q)")
  case None
  then show "cancel i q = (ok, q') \<Longrightarrow> ?thesis" by (simp add: cancel_absent)
next
  case (Some x)
  assume c: "cancel i q = (ok, q')"
  obtain j js where x: "x = (j, js)" by fastforce
  from erase_first_Some [OF Some [unfolded x]] obtain xs ys where
    "pending q = xs @ j # ys" "js = xs @ ys" by blast
  with cancel_present [OF Some [unfolded x]] c show ?thesis by (auto simp: ids_def cancelled_id)
qed

lemma ids_drain: "drain q = (js, q') \<Longrightarrow> ids q = mset (map job_id js) + ids q'"
  using drain_result [of q] by (auto simp: ids_def)

end

section \<open>Workers\<close>

locale job_worker = job_queue +
  fixes work :: "'b \<Rightarrow> 's \<Rightarrow> ('b \<times> 's) option"
    and process_next :: "'a \<Rightarrow> 's \<Rightarrow> (bool \<times> 'a \<times> 's) option"
  assumes process_idle: "try_dequeue q = (None, q') \<Longrightarrow> process_next q s = Some (False, q', s)"
    and process_job: "try_dequeue q = (Some j, q') \<Longrightarrow>
      process_next q s = do { (j', s) \<leftarrow> work j s; Some (True, complete j' q', s) }"
begin

lemma process_nothing: "pending q = [] \<Longrightarrow> process_next q s = Some (False, q, s)"
  by (simp add: dequeue_empty process_idle)

lemma process_front:
  assumes "pending q = j # js" "work j s = Some (j', s')"
  shows "\<exists>q'. process_next q s = Some (True, q', s') \<and> pending q' = js \<and> completed q' = completed q @ [j']"
proof -
  obtain q1 where q1: "try_dequeue q = (Some j, q1)" "pending q1 = js" "completed q1 = completed q"
    using dequeue_front [OF assms(1)] by blast
  from process_job [OF q1(1), of s] assms(2) q1(2,3) show ?thesis
    by (intro exI [of _ "complete j' q1"]) (simp add: complete_pending complete_completed)
qed

end

section \<open>Pools\<close>

text \<open>
  A pool asks each of its workers once (\<open>drain_once\<close>), and repeats that until no worker found a job
  (\<open>drain_all\<close>).
\<close>

locale worker_pool = job_worker +
  fixes drain_once :: "nat \<Rightarrow> 'a \<Rightarrow> 'c \<Rightarrow> (nat \<times> 'a \<times> 'c) option"
    and drain_all :: "nat \<Rightarrow> 'a \<Rightarrow> 'c \<Rightarrow> (nat \<times> 'a \<times> 'c) option"
  assumes drain_once_0: "drain_once 0 q s = Some (0, q, s)"
    and drain_once_Suc: "drain_once (Suc workers) q s = do {
      (processed, q, s) \<leftarrow> process_next q s;
      (n, q, s) \<leftarrow> drain_once workers q s;
      Some ((if processed then Suc n else n), q, s)
    }"
    and drain_all_rec: "drain_all workers q s = do {
      (batch, q, s) \<leftarrow> drain_once workers q s;
      if batch = 0 then Some (0, q, s)
      else do { (n, q, s) \<leftarrow> drain_all workers q s; Some (batch + n, q, s) }
    }"
begin

lemma drain_once_idle: "pending q = [] \<Longrightarrow> drain_once workers q s = Some (0, q, s)"
  by (induction workers) (simp_all add: drain_once_0 drain_once_Suc process_nothing)

lemma drain_once_front:
  "work_all work (take workers (pending q)) s = Some (js, s') \<Longrightarrow>
     \<exists>q'. drain_once workers q s = Some (min workers (length (pending q)), q', s') \<and>
       pending q' = drop workers (pending q) \<and> completed q' = completed q @ js"
proof (induction workers arbitrary: q s js)
  case 0
  then show ?case by (simp add: drain_once_0)
next
  case (Suc workers)
  show ?case
  proof (cases "pending q")
    case Nil
    with Suc.prems show ?thesis by (simp add: drain_once_idle)
  next
    case (Cons j rest)
    with Suc.prems obtain j' s1 js' where
      w: "work j s = Some (j', s1)" "work_all work (take workers rest) s1 = Some (js', s')" "js = j' # js'"
      by (auto elim!: bind_SomeE)
    from process_front [OF Cons w(1)] obtain q1 where
      q1: "process_next q s = Some (True, q1, s1)" "pending q1 = rest" "completed q1 = completed q @ [j']" by blast
    from Suc.IH [of q1 s1 js'] w(2) q1(2) obtain q' where
      "drain_once workers q1 s1 = Some (min workers (length rest), q', s')"
      "pending q' = drop workers rest" "completed q' = completed q1 @ js'" by auto
    with q1 Cons w(3) show ?thesis by (simp add: drain_once_Suc)
  qed
qed

text \<open>With at least one worker, draining a queue works on every waiting job, in order, and ends.\<close>

lemma drain_all_complete:
  assumes "0 < workers" "work_all work (pending q) s = Some (js, s')"
  shows "\<exists>q'. drain_all workers q s = Some (length (pending q), q', s') \<and>
    pending q' = [] \<and> completed q' = completed q @ js"
  using assms(2)
proof (induction "length (pending q)" arbitrary: q s js rule: less_induct)
  case less
  show ?case
  proof (cases "pending q")
    case Nil
    with less.prems show ?thesis
      by (subst drain_all_rec) (simp add: drain_once_idle)
  next
    case (Cons j rest)
    obtain as s1 bs where w: "work_all work (take workers (pending q)) s = Some (as, s1)"
      "work_all work (drop workers (pending q)) s1 = Some (bs, s')" "js = as @ bs"
      using less.prems work_all_append [of work "take workers (pending q)" "drop workers (pending q)" s js s'] by auto
    from drain_once_front [OF w(1)] obtain q1 where
      q1: "drain_once workers q s = Some (min workers (length (pending q)), q1, s1)"
      "pending q1 = drop workers (pending q)" "completed q1 = completed q @ as" by blast
    have "length (pending q1) < length (pending q)" using q1(2) Cons assms(1) by simp
    from less.hyps [OF this, of s1 bs] w(2) q1(2) obtain q' where
      "drain_all workers q1 s1 = Some (length (pending q1), q', s')"
      "pending q' = []" "completed q' = completed q1 @ bs" by auto
    with q1 w(3) Cons assms(1) show ?thesis by (subst drain_all_rec) auto
  qed
qed

end

end
