(* ===== verification/Execution_Scheduler.thy ===== *)
theory Execution_Scheduler
  imports Job_Queue Process_Runner "HOL-Library.Sublist"
begin

text \<open>
  \<open>include/runner/execution_scheduler.hpp\<close>: \<open>ExecutionQueue\<close>, \<open>ExecutionScheduler\<close>,
  \<open>ExecutionWorker\<close> and \<open>ExecutionWorkerPool\<close>. A queue operation holds the queue's mutex from its
  first to its last statement, so it is one atomic function on the queue. \<open>runNext\<close> is a sequence of
  such operations with the execution between them, outside the lock; section \<open>Interleavings\<close> treats
  several threads at once.
\<close>

section \<open>The queue\<close>

record ExecutionRequest =
  request_executable :: string
  request_args :: "string list"
  request_input :: bytes
  request_config :: ExecutionConfig

record ExecutionHandle =
  execution_id :: u64
  handle_request :: ExecutionRequest
  handle_state :: ExecutionState
  handle_result :: ExecutionResult

record ExecutionQueue =
  exec_pending :: "ExecutionHandle list"
  exec_completed :: "ExecutionHandle list"
  exec_max_pending :: nat

definition new_ExecutionQueue :: "nat \<Rightarrow> ExecutionQueue" where
  "new_ExecutionQueue max_pending =
     \<lparr>exec_pending = [], exec_completed = [], exec_max_pending = max_pending\<rparr>"

definition new_handle :: "u64 \<Rightarrow> ExecutionRequest \<Rightarrow> ExecutionHandle" where
  "new_handle i request = \<lparr>execution_id = i, handle_request = request, handle_state = Created,
     handle_result = default_ExecutionResult\<rparr>"

definition push_handle :: "ExecutionHandle \<Rightarrow> ExecutionQueue \<Rightarrow> ExecutionQueue" where
  "push_handle handle q = q\<lparr>exec_pending := exec_pending q @ [handle]\<rparr>"

definition enqueue ::
  "'w kernel \<Rightarrow> ExecutionRequest \<Rightarrow> ExecutionQueue \<Rightarrow> 'w proc \<Rightarrow> ExecutionHandle \<times> ExecutionQueue \<times> 'w proc"
where
  "enqueue K request q s =
     (case generateExecutionId K s of (i, s) \<Rightarrow>
        let handle = new_handle i request in (handle, push_handle handle q, s))"

definition tryEnqueue ::
  "'w kernel \<Rightarrow> ExecutionRequest \<Rightarrow> ExecutionQueue \<Rightarrow> 'w proc
     \<Rightarrow> ExecutionHandle option \<times> ExecutionQueue \<times> 'w proc"
where
  "tryEnqueue K request q s =
     (if exec_max_pending q \<noteq> 0 \<and> length (exec_pending q) \<ge> exec_max_pending q then (None, q, s)
      else case generateExecutionId K s of (i, s) \<Rightarrow>
        let handle = new_handle i request in (Some handle, push_handle handle q, s))"

text \<open>\<open>tryDequeue\<close>: \<open>None\<close> is the result \<open>false\<close>, \<open>Some\<close> the handle it stores on \<open>true\<close>.\<close>

definition tryDequeue :: "ExecutionQueue \<Rightarrow> ExecutionHandle option \<times> ExecutionQueue" where
  "tryDequeue q =
     (case exec_pending q of
        [] \<Rightarrow> (None, q)
      | handle # rest \<Rightarrow> (Some handle, q\<lparr>exec_pending := rest\<rparr>))"

definition complete :: "ExecutionHandle \<Rightarrow> ExecutionQueue \<Rightarrow> ExecutionQueue" where
  "complete handle q = q\<lparr>exec_completed := exec_completed q @ [handle]\<rparr>"

definition cancelled_handle :: "ExecutionHandle \<Rightarrow> ExecutionHandle" where
  "cancelled_handle handle = handle\<lparr>handle_state := Cancelled\<rparr>"

definition cancel :: "u64 \<Rightarrow> ExecutionQueue \<Rightarrow> bool \<times> ExecutionQueue" where
  "cancel i q =
     (case erase_first (\<lambda>handle. execution_id handle = i) (exec_pending q) of
        None \<Rightarrow> (False, q)
      | Some (handle, rest) \<Rightarrow>
          (True, q\<lparr>exec_pending := rest, exec_completed := exec_completed q @ [cancelled_handle handle]\<rparr>))"

definition pendingCount :: "ExecutionQueue \<Rightarrow> nat" where
  "pendingCount q = length (exec_pending q)"

definition drainCompleted :: "ExecutionQueue \<Rightarrow> ExecutionHandle list \<times> ExecutionQueue" where
  "drainCompleted q = (exec_completed q, q\<lparr>exec_completed := []\<rparr>)"

section \<open>Scheduler, worker and pool\<close>

text \<open>
  The scheduler is its queue; the runner it owns is the argument \<open>runner\<close>. The execution of one
  handle, between the two queue operations of \<open>runNext\<close>:
\<close>

definition run_handle ::
  "'s process_runner \<Rightarrow> ExecutionHandle \<Rightarrow> 's \<Rightarrow> (ExecutionHandle \<times> 's) option"
where
  "run_handle runner handle s = do {
     let handle = handle\<lparr>handle_state := Running\<rparr>;
     let request = handle_request handle;
     (result, s) \<leftarrow> runner (request_executable request) (request_args request) (request_input request)
       (request_config request) s;
     let handle = handle\<lparr>handle_result := result\<rparr>;
     Some (handle\<lparr>handle_state := state (handle_result handle)\<rparr>, s)
   }"

definition runNext ::
  "'s process_runner \<Rightarrow> ExecutionQueue \<Rightarrow> 's \<Rightarrow> (bool \<times> ExecutionQueue \<times> 's) option"
where
  "runNext runner q s =
     (case tryDequeue q of
        (None, q) \<Rightarrow> Some (False, q, s)
      | (Some handle, q) \<Rightarrow> do {
          (handle, s) \<leftarrow> run_handle runner handle s;
          Some (True, complete handle q, s)
        })"

definition isFinished :: "ExecutionHandle \<Rightarrow> bool" where
  "isFinished handle \<longleftrightarrow>
     handle_state handle = Finished \<or> handle_state handle = ExecutionState.TimedOut \<or>
     handle_state handle = ExecutionState.Signaled \<or> handle_state handle = Failed \<or>
     handle_state handle = SandboxFailed \<or> handle_state handle = RunnerFailed \<or>
     handle_state handle = Cancelled"

text \<open>
  \<open>ExecutionWorker\<close> holds a pointer to its scheduler, which the constructors never leave null;
  \<open>attached\<close> is \<open>scheduler_ != nullptr\<close>. A pool is its vector of workers on one scheduler.
\<close>

record ExecutionWorker =
  attached :: bool

definition processNext ::
  "'s process_runner \<Rightarrow> ExecutionWorker \<Rightarrow> ExecutionQueue \<Rightarrow> 's \<Rightarrow> (bool \<times> ExecutionQueue \<times> 's) option"
where
  "processNext runner worker q s =
     (if \<not> attached worker then Some (False, q, s) else runNext runner q s)"

definition new_pool :: "nat \<Rightarrow> ExecutionWorker list" where
  "new_pool worker_count = replicate worker_count \<lparr>attached = True\<rparr>"

fun drainOnce ::
  "'s process_runner \<Rightarrow> ExecutionWorker list \<Rightarrow> ExecutionQueue \<Rightarrow> 's \<Rightarrow> (nat \<times> ExecutionQueue \<times> 's) option"
where
  "drainOnce runner [] q s = Some (0, q, s)"
| "drainOnce runner (worker # workers) q s = do {
     (processed, q, s) \<leftarrow> processNext runner worker q s;
     (n, q, s) \<leftarrow> drainOnce runner workers q s;
     Some ((if processed then Suc n else n), q, s)
   }"

partial_function (option) drainAll ::
  "'s process_runner \<Rightarrow> ExecutionWorker list \<Rightarrow> ExecutionQueue \<Rightarrow> 's \<Rightarrow> (nat \<times> ExecutionQueue \<times> 's) option"
where
  "drainAll runner workers q s = do {
     (batch, q, s) \<leftarrow> drainOnce runner workers q s;
     if batch = 0 then Some (0, q, s)
     else do { (n, q, s) \<leftarrow> drainAll runner workers q s; Some (batch + n, q, s) }
   }"

declare drainAll.simps [code]

section \<open>The contracts\<close>

interpretation exec: worker_pool exec_pending exec_completed execution_id cancelled_handle push_handle
  tryDequeue complete cancel drainCompleted "run_handle runner" "runNext runner"
  "\<lambda>n. drainOnce runner (new_pool n)" "\<lambda>n. drainAll runner (new_pool n)" for runner
proof unfold_locales
  show "drainAll runner (new_pool workers) q s = do {
      (batch, q, s) \<leftarrow> drainOnce runner (new_pool workers) q s;
      if batch = 0 then Some (0, q, s)
      else do { (n, q, s) \<leftarrow> drainAll runner (new_pool workers) q s; Some (batch + n, q, s) } }" for workers q s
    by (rule drainAll.simps)
qed (simp_all add: push_handle_def tryDequeue_def complete_def cancel_def drainCompleted_def cancelled_handle_def
  runNext_def processNext_def new_pool_def split: list.splits)

section \<open>Sequential properties\<close>

text \<open>
  C17. A pool with at least one worker drains its scheduler: if every waiting execution returns, so does
  \<open>drainAll\<close>, with the number of executions that were waiting; none is left, and the completed
  ones follow the earlier ones in the order of submission, each with the result and the state its run returned.
\<close>

theorem drainAll_drains:
  assumes "0 < workers" "work_all (run_handle runner) (exec_pending q) s = Some (handles, s')"
  shows "\<exists>q'. drainAll runner (new_pool workers) q s = Some (pendingCount q, q', s') \<and>
    pendingCount q' = 0 \<and> exec_completed q' = exec_completed q @ handles \<and>
    map execution_id handles = map execution_id (exec_pending q)"
proof -
  have "map execution_id handles = map execution_id js"
    if "work_all (run_handle runner) js s = Some (handles, s')" for js s handles
    using that by (induction js arbitrary: s handles) (auto simp: run_handle_def Let_def elim!: bind_SomeE)
  with assms(2) exec.drain_all_complete [OF assms] show ?thesis by (auto simp: pendingCount_def)
qed

definition quick_runner :: "unit process_runner" where
  "quick_runner executable args input cfg s =
     Some (default_ExecutionResult\<lparr>exit_code := 0, stdout_output := input, state := Finished\<rparr>, s)"

definition demo_request :: "bytes \<Rightarrow> ExecutionRequest" where
  "demo_request input = \<lparr>request_executable = ''/bin/cat'', request_args = [], request_input = input,
     request_config = \<lparr>limit = \<lparr>cpu_limit = 1, wall_limit = 1000, memory_limit = 0\<rparr>,
       sandbox_config = default_SandboxConfig\<rparr>\<rparr>"

definition demo_queue :: ExecutionQueue where
  "demo_queue = push_handle (new_handle 3 (demo_request [3])) (push_handle (new_handle 2 (demo_request [2]))
     (push_handle (new_handle 1 (demo_request [1])) (new_ExecutionQueue 0)))"

lemmas demo_queue_defs = demo_queue_def push_handle_def new_handle_def new_ExecutionQueue_def

theorem drainAll_drains_witness:
  "\<exists>q' s'. drainAll quick_runner (new_pool 2) demo_queue () = Some (3, q', s') \<and> pendingCount q' = 0"
proof -
  have "\<exists>hs s'. work_all (run_handle quick_runner) (exec_pending demo_queue) () = Some (hs, s')"
    by (simp add: demo_queue_defs run_handle_def quick_runner_def)
  then show ?thesis
    using drainAll_drains [of 2 quick_runner demo_queue "()"]
    by (fastforce simp: pendingCount_def demo_queue_defs)
qed

text \<open>
  C26. Admission. \<open>tryEnqueue\<close> refuses a request, leaving everything as it was, exactly when the queue has
  a bound and has reached it; otherwise it appends a handle in state \<open>Created\<close>. A queue within its
  bound stays within it.
\<close>

theorem tryEnqueue_admission:
  assumes "tryEnqueue K request q s = (answer, q', s')"
  shows "(answer = None \<longleftrightarrow> exec_max_pending q \<noteq> 0 \<and> exec_max_pending q \<le> pendingCount q) \<and>
    (answer = None \<longrightarrow> q' = q \<and> s' = s) \<and>
    (\<forall>handle. answer = Some handle \<longrightarrow> handle_request handle = request \<and> handle_state handle = Created \<and>
       exec_pending q' = exec_pending q @ [handle]) \<and>
    (pendingCount q \<le> exec_max_pending q \<longrightarrow> exec_max_pending q \<noteq> 0 \<longrightarrow>
       pendingCount q' \<le> exec_max_pending q')"
  using assms
  by (auto simp: tryEnqueue_def pendingCount_def push_handle_def new_handle_def Let_def split: if_splits prod.splits)

theorem tryEnqueue_admission_witness:
  "\<exists>handle q' s'. tryEnqueue (scripted (Ret 7)) (demo_request []) (new_ExecutionQueue 1) (boot []) =
      (Some handle, q', s') \<and> exec_pending q' = [handle] \<and> handle_state handle = Created"
proof -
  obtain answer q' s' where e:
    "tryEnqueue (scripted (Ret 7)) (demo_request []) (new_ExecutionQueue 1) (boot []) = (answer, q', s')"
    by (metis prod_cases3)
  have "pendingCount (new_ExecutionQueue 1) = 0" "exec_max_pending (new_ExecutionQueue 1) = 1"
    "exec_pending (new_ExecutionQueue 1) = []"
    by (simp_all add: pendingCount_def new_ExecutionQueue_def)
  with tryEnqueue_admission [OF e] e show ?thesis by auto
qed

text \<open>
  C25. \<open>cancel\<close> succeeds exactly when an execution with that identifier is waiting; it then moves the first
  such handle, marked \<open>Cancelled\<close>, to the completed ones and leaves the others in their order, so that
  no worker can take it any more.
\<close>

theorem cancel_correct:
  assumes "cancel i q = (ok, q')"
  shows "(ok \<longleftrightarrow> i \<in> execution_id ` set (exec_pending q)) \<and> (\<not> ok \<longrightarrow> q' = q) \<and>
    (ok \<longrightarrow> (\<exists>before handle after. exec_pending q = before @ handle # after \<and> execution_id handle = i \<and>
       i \<notin> execution_id ` set before \<and> exec_pending q' = before @ after \<and>
       exec_completed q' = exec_completed q @ [handle\<lparr>handle_state := Cancelled\<rparr>]))"
proof (cases "erase_first (\<lambda>handle. execution_id handle = i) (exec_pending q)")
  case None
  with assms show ?thesis by (auto simp: cancel_def erase_first_None)
next
  case (Some x)
  obtain handle rest where x: "x = (handle, rest)" by fastforce
  from erase_first_Some [OF Some [unfolded x]] obtain before after where
    p: "exec_pending q = before @ handle # after" "rest = before @ after" and i: "execution_id handle = i"
    and f: "\<forall>h \<in> set before. execution_id h \<noteq> i" by blast
  from assms Some x have q': "ok" "exec_pending q' = rest"
    "exec_completed q' = exec_completed q @ [handle\<lparr>handle_state := Cancelled\<rparr>]"
    by (auto simp: cancel_def cancelled_handle_def)
  have "i \<in> execution_id ` set (exec_pending q)" using p(1) i by auto
  moreover have "i \<notin> execution_id ` set before" using f by auto
  ultimately show ?thesis using p i q' by blast
qed

theorem cancel_correct_witness:
  "\<exists>q'. cancel 2 demo_queue = (True, q') \<and> length (exec_pending q') = 2"
proof -
  have "\<exists>q'. cancel 2 demo_queue = (True, q')"
    by (simp add: cancel_def demo_queue_defs)
  then obtain q' where c: "cancel 2 demo_queue = (True, q')" ..
  have "length (exec_pending demo_queue) = 3" by (simp add: demo_queue_defs)
  with cancel_correct [OF c] c show ?thesis by fastforce
qed

section \<open>Interleavings\<close>

text \<open>
  Threads share one scheduler: clients submit, cancel and drain, workers run \<open>runNext\<close>. A step of
  the system is one queue operation (they exclude each other by the mutex) or one action of a worker outside the
  mutex. A worker's \<open>runNext\<close> is the three steps \<open>Takes\<close> (the dequeue), \<open>Starts\<close> (the handle becomes \<open>Running\<close>
  and its execution begins) and \<open>Finishes\<close>, between which any steps of others may happen. The state
  holds the queue, the handles workers hold, what clients have drained, and three histories: the identifiers
  submitted, those dequeued by a worker and those whose execution began, in order.
\<close>

record system =
  sys_queue :: ExecutionQueue
  in_flight :: "ExecutionHandle list"
  drained :: "ExecutionHandle list"
  submitted :: "u64 list"
  taken :: "u64 list"
  started :: "u64 list"

definition initial_system :: system where
  "initial_system = \<lparr>sys_queue = new_ExecutionQueue 0, in_flight = [], drained = [], submitted = [], taken = [],
     started = []\<rparr>"

datatype sched_event =
    Submits u64 ExecutionRequest
  | Takes ExecutionHandle
  | Starts ExecutionHandle
  | Finishes ExecutionHandle ExecutionResult
  | Cancels u64
  | Drains

inductive sched_step :: "sched_event \<Rightarrow> system \<Rightarrow> system \<Rightarrow> bool" where
  submit: "sched_step (Submits i request) st (st\<lparr>sys_queue := push_handle (new_handle i request) (sys_queue st),
             submitted := submitted st @ [i]\<rparr>)"
| take: "tryDequeue (sys_queue st) = (Some handle, q) \<Longrightarrow>
     sched_step (Takes handle) st (st\<lparr>sys_queue := q, in_flight := in_flight st @ [handle],
       taken := taken st @ [execution_id handle]\<rparr>)"
| start: "in_flight st = before @ handle # after \<Longrightarrow> handle_state handle = Created \<Longrightarrow>
     sched_step (Starts handle) st (st\<lparr>in_flight := before @ handle\<lparr>handle_state := Running\<rparr> # after,
       started := started st @ [execution_id handle]\<rparr>)"
| finish: "in_flight st = before @ handle # after \<Longrightarrow> handle_state handle = Running \<Longrightarrow>
     sched_step (Finishes handle result) st
       (st\<lparr>sys_queue := complete (handle\<lparr>handle_result := result, handle_state := state result\<rparr>) (sys_queue st),
          in_flight := before @ after\<rparr>)"
| cancels: "cancel i (sys_queue st) = (ok, q) \<Longrightarrow> sched_step (Cancels i) st (st\<lparr>sys_queue := q\<rparr>)"
| drains: "drainCompleted (sys_queue st) = (handles, q) \<Longrightarrow>
     sched_step Drains st (st\<lparr>sys_queue := q, drained := drained st @ handles\<rparr>)"

inductive_cases sched_stepE: "sched_step ev st st'"

text \<open>Every identifier submitted is in one place, and in no more places than it was submitted times.\<close>

definition conserved :: "system \<Rightarrow> bool" where
  "conserved st \<longleftrightarrow> mset (submitted st) =
     mset (map execution_id (exec_pending (sys_queue st))) + mset (map execution_id (in_flight st)) +
     mset (map execution_id (exec_completed (sys_queue st))) + mset (map execution_id (drained st))"

text \<open>Executions are dequeued in the order of submission, and those that wait follow the dequeued ones.\<close>

definition in_order :: "system \<Rightarrow> bool" where
  "in_order st \<longleftrightarrow> subseq (taken st @ map execution_id (exec_pending (sys_queue st))) (submitted st)"

text \<open>What a client gets back is either the outcome of a run or a cancelled request that never ran.\<close>

definition settled :: "ExecutionHandle \<Rightarrow> bool" where
  "settled handle \<longleftrightarrow> handle_state handle = state (handle_result handle) \<or>
     handle_state handle = Cancelled \<and> handle_result handle = default_ExecutionResult"

definition settled_only :: "system \<Rightarrow> bool" where
  "settled_only st \<longleftrightarrow> (\<forall>handle \<in> set (exec_completed (sys_queue st)) \<union> set (drained st). settled handle) \<and>
     (\<forall>handle \<in> set (exec_pending (sys_queue st)). handle_state handle = Created \<and>
        handle_result handle = default_ExecutionResult)"

lemma conserved_ids: "conserved st \<longleftrightarrow>
  mset (submitted st) = exec.ids (sys_queue st) + mset (map execution_id (in_flight st)) + mset (map execution_id (drained st))"
  by (simp add: conserved_def exec.ids_def ac_simps)

lemma conserved_step: "sched_step ev st st' \<Longrightarrow> conserved st \<Longrightarrow> conserved st'"
proof (induction rule: sched_step.induct)
  case (submit i request st)
  then show ?case by (simp add: conserved_ids exec.ids_put new_handle_def)
next
  case (take st handle q)
  from exec.ids_dequeue [OF take(1)] take(2) show ?case by (simp add: conserved_ids)
next
  case (start st before handle after)
  then show ?case by (simp add: conserved_ids)
next
  case (finish st before handle after result)
  then show ?case by (simp add: conserved_ids exec.ids_complete)
next
  case (cancels i st ok q)
  from exec.ids_cancel [OF cancels(1)] cancels(2) show ?case by (simp add: conserved_ids)
next
  case (drains st handles q)
  from exec.ids_drain [OF drains(1)] drains(2) show ?case by (simp add: conserved_ids ac_simps)
qed

text \<open>What each queue operation does to the waiting handles.\<close>

lemma tryDequeue_Some: "tryDequeue q = (Some handle, q') \<longleftrightarrow>
  (\<exists>rest. exec_pending q = handle # rest \<and> q' = q\<lparr>exec_pending := rest\<rparr>)"
  by (auto simp: tryDequeue_def split: list.splits)

lemma cancel_cases:
  assumes "cancel i q = (ok, q')"
  obtains "q' = q"
  | before handle after where "exec_pending q = before @ handle # after" "exec_pending q' = before @ after"
      "exec_completed q' = exec_completed q @ [cancelled_handle handle]"
proof (cases "erase_first (\<lambda>handle. execution_id handle = i) (exec_pending q)")
  case None
  with assms that(1) show ?thesis by (simp add: cancel_def)
next
  case (Some x)
  obtain handle rest where x: "x = (handle, rest)" by fastforce
  from erase_first_Some [OF Some [unfolded x]] obtain before after where
    "exec_pending q = before @ handle # after" "rest = before @ after" by blast
  moreover from assms Some x have "exec_pending q' = rest"
    "exec_completed q' = exec_completed q @ [cancelled_handle handle]" by (auto simp: cancel_def)
  ultimately show ?thesis using that(2) by blast
qed

lemma in_order_step: "sched_step ev st st' \<Longrightarrow> in_order st \<Longrightarrow> in_order st'"
proof (induction rule: sched_step.induct)
  case (submit i request st)
  then show ?case
    using list_emb_append_mono [of "(=)" "taken st @ map execution_id (exec_pending (sys_queue st))" "submitted st" "[i]" "[i]"]
    by (simp add: in_order_def push_handle_def new_handle_def)
next
  case (take st handle q)
  then show ?case by (auto simp: in_order_def tryDequeue_Some)
next
  case (start st before handle after)
  then show ?case by (simp add: in_order_def)
next
  case (finish st before handle after result)
  then show ?case by (simp add: in_order_def complete_def)
next
  case (cancels i st ok q)
  from cancels(1) show ?case
  proof (cases rule: cancel_cases)
    case 1
    with cancels(2) show ?thesis by (simp add: in_order_def)
  next
    case (2 before handle after)
    have "subseq (taken st @ map execution_id (before @ after))
      (taken st @ map execution_id (before @ handle # after))"
      unfolding map_append append.simps list.map by (intro list_emb_append_mono) auto
    with 2 cancels(2) show ?thesis
      unfolding in_order_def by (simp add: subseq_order.order_trans)
  qed
next
  case (drains st handles q)
  then show ?case by (auto simp: in_order_def drainCompleted_def)
qed

lemma settled_step: "sched_step ev st st' \<Longrightarrow> settled_only st \<Longrightarrow> settled_only st'"
proof (induction rule: sched_step.induct)
  case (submit i request st)
  then show ?case by (auto simp: settled_only_def push_handle_def new_handle_def)
next
  case (take st handle q)
  then show ?case by (auto simp: settled_only_def tryDequeue_Some)
next
  case (start st before handle after)
  then show ?case by (simp add: settled_only_def)
next
  case (finish st before handle after result)
  then show ?case by (auto simp: settled_only_def complete_def settled_def)
next
  case (cancels i st ok q)
  from cancels(1) show ?case
  proof (cases rule: cancel_cases)
    case 1
    with cancels(2) show ?thesis by (simp add: settled_only_def)
  next
    case (2 before handle after)
    then have "settled (cancelled_handle handle)"
      using cancels(2) by (auto simp: settled_only_def settled_def cancelled_handle_def)
    with 2 cancels(2) show ?thesis by (auto simp: settled_only_def)
  qed
next
  case (drains st handles q)
  then show ?case by (auto simp: settled_only_def drainCompleted_def)
qed

definition reachable :: "system \<Rightarrow> bool" where
  "reachable st \<longleftrightarrow> (\<lambda>st st'. \<exists>ev. sched_step ev st st')\<^sup>*\<^sup>* initial_system st"

lemma reachable_induct [consumes 1, case_names initial step]:
  assumes "reachable st" "P initial_system" "\<And>ev st st'. sched_step ev st st' \<Longrightarrow> P st \<Longrightarrow> P st'"
  shows "P st"
  using assms(1) unfolding reachable_def by (induction rule: rtranclp_induct) (auto intro: assms(2,3))

text \<open>
  C14. However the steps of clients and workers interleave, no execution is lost or duplicated: the
  identifiers submitted are those waiting, in flight, completed and drained, with multiplicity.
\<close>

theorem executions_conserved:
  assumes "reachable st"
  shows "mset (submitted st) =
     mset (map execution_id (exec_pending (sys_queue st))) + mset (map execution_id (in_flight st)) +
     mset (map execution_id (exec_completed (sys_queue st))) + mset (map execution_id (drained st))"
proof -
  have "conserved st" using assms
  proof (induction rule: reachable_induct)
    case initial
    show ?case by (simp add: conserved_def initial_system_def new_ExecutionQueue_def)
  qed (rule conserved_step)
  then show ?thesis by (simp only: conserved_def)
qed

lemma reachable_step: "reachable st \<Longrightarrow> sched_step ev st st' \<Longrightarrow> reachable st'"
  unfolding reachable_def by (blast intro: rtranclp.rtrancl_into_rtrancl)

lemma reachable_initial: "reachable initial_system"
  by (simp add: reachable_def)

text \<open>Two clients submit, a worker takes and starts the first request while the second is cancelled.\<close>

lemma demo_reachable: "\<exists>st. reachable st \<and> submitted st = [1, 2] \<and> taken st = [1] \<and> started st = [1] \<and>
  map execution_id (in_flight st) = [1] \<and> map handle_state (exec_completed (sys_queue st)) = [Cancelled]"
proof -
  define s1 where "s1 = initial_system\<lparr>sys_queue := push_handle (new_handle 1 (demo_request [])) (sys_queue initial_system),
    submitted := submitted initial_system @ [1]\<rparr>"
  define s2 where "s2 = s1\<lparr>sys_queue := push_handle (new_handle 2 (demo_request [])) (sys_queue s1),
    submitted := submitted s1 @ [2]\<rparr>"
  obtain h q where d: "tryDequeue (sys_queue s2) = (Some h, q)" "execution_id h = 1" "handle_state h = Created"
    "exec_pending q = [new_handle 2 (demo_request [])]" "exec_completed q = []"
    by (simp add: s2_def s1_def initial_system_def tryDequeue_def demo_queue_defs)
  define s3 where "s3 = s2\<lparr>sys_queue := q, in_flight := in_flight s2 @ [h], taken := taken s2 @ [execution_id h]\<rparr>"
  have f: "in_flight s3 = [] @ h # []" by (simp add: s3_def s2_def s1_def initial_system_def)
  define s4 where "s4 = s3\<lparr>in_flight := [] @ h\<lparr>handle_state := Running\<rparr> # [], started := started s3 @ [execution_id h]\<rparr>"
  obtain q' where c: "cancel 2 (sys_queue s4) = (True, q')" "map handle_state (exec_completed q') = [Cancelled]"
    using d by (simp add: s4_def s3_def cancel_def new_handle_def cancelled_handle_def)
  define s5 where "s5 = s4\<lparr>sys_queue := q'\<rparr>"
  have "reachable s1" unfolding s1_def by (rule reachable_step [OF reachable_initial submit])
  then have "reachable s2" unfolding s2_def by (rule reachable_step [OF _ submit])
  then have "reachable s3" unfolding s3_def by (rule reachable_step [OF _ take [OF d(1)]])
  then have "reachable s4" unfolding s4_def by (rule reachable_step [OF _ start [OF f d(3)]])
  then have "reachable s5" unfolding s5_def by (rule reachable_step [OF _ cancels [OF c(1)]])
  then show ?thesis using c(2) d
    by (intro exI [of _ s5]) (simp add: s5_def s4_def s3_def s2_def s1_def initial_system_def)
qed

theorem executions_conserved_witness:
  "\<exists>st. reachable st \<and> mset (submitted st) = {#1, 2#} \<and>
     mset (submitted st) =
       mset (map execution_id (exec_pending (sys_queue st))) + mset (map execution_id (in_flight st)) +
       mset (map execution_id (exec_completed (sys_queue st))) + mset (map execution_id (drained st))"
  using demo_reachable executions_conserved by force

text \<open>
  C15. However the steps interleave, workers take executions from the queue in the order in which they were submitted
  (some may be cancelled before), and an execution that waits was submitted after all that have been taken. The
  executions themselves begin after the queue's mutex has been released, so that this is the order of the dequeues only.
\<close>

theorem executions_taken_in_order:
  assumes "reachable st"
  shows "subseq (taken st @ map execution_id (exec_pending (sys_queue st))) (submitted st)"
proof -
  have "in_order st" using assms
  proof (induction rule: reachable_induct)
    case initial
    show ?case by (simp add: in_order_def initial_system_def new_ExecutionQueue_def)
  qed (rule in_order_step)
  then show ?thesis by (simp only: in_order_def)
qed

theorem executions_taken_in_order_witness:
  "\<exists>st. reachable st \<and> taken st = [1] \<and> subseq (taken st @ map execution_id (exec_pending (sys_queue st))) (submitted st)"
  using demo_reachable executions_taken_in_order by blast

lemma reachable_settled: "reachable st \<Longrightarrow> settled_only st"
proof (induction rule: reachable_induct)
  case initial
  show ?case by (simp add: settled_only_def initial_system_def new_ExecutionQueue_def)
qed (rule settled_step)

text \<open>
  C24. Every handle a client can drain is settled: its state is the state of the result its run returned,
  or it was cancelled while it waited and holds no result.
\<close>

theorem drained_settled:
  assumes "reachable st" "drainCompleted (sys_queue st) = (handles, q)" "handle \<in> set handles"
  shows "handle_state handle = state (handle_result handle) \<or>
    handle_state handle = Cancelled \<and> handle_result handle = default_ExecutionResult"
proof -
  have "settled_only st" using assms(1) by (rule reachable_settled)
  with assms(2,3) show ?thesis by (auto simp: settled_only_def settled_def drainCompleted_def)
qed

theorem drained_settled_witness:
  "\<exists>st handles q handle. reachable st \<and> drainCompleted (sys_queue st) = (handles, q) \<and> handle \<in> set handles \<and>
     handle_state handle = Cancelled \<and>
     (handle_state handle = state (handle_result handle) \<or> handle_result handle = default_ExecutionResult)"
proof -
  obtain st where st: "reachable st" "map handle_state (exec_completed (sys_queue st)) = [Cancelled]"
    using demo_reachable by (elim exE conjE) (rule that)
  from st(2) obtain handle where h: "exec_completed (sys_queue st) = [handle]" "handle_state handle = Cancelled"
    by (cases "exec_completed (sys_queue st)") auto
  obtain q where d: "drainCompleted (sys_queue st) = ([handle], q)" using h by (simp add: drainCompleted_def)
  have "handle_state handle = state (handle_result handle) \<or>
    handle_state handle = Cancelled \<and> handle_result handle = default_ExecutionResult"
    by (rule drained_settled [OF st(1) d]) simp
  with st(1) d h(2) show ?thesis
    by (intro exI [of _ st] exI [of _ "[handle]"] exI [of _ q] exI [of _ handle]) simp
qed


text \<open>
  C16. A worker's \<open>runNext\<close> refines the step relation: when it returns, it either found nothing waiting and
  changed nothing, or its effect on the queue is that of the three steps that take the handle at the front, start it, and
  finish it with the result the runner returned for that handle's own request; nothing else of the system has changed.
\<close>

theorem runNext_refines_steps:
  assumes "reachable st" "runNext runner (sys_queue st) s = Some (ok, q', s')"
  shows "if ok then \<exists>handle result st1 st2 st3.
       sched_step (Takes handle) st st1 \<and> sched_step (Starts handle) st1 st2 \<and>
       sched_step (Finishes (handle\<lparr>handle_state := Running\<rparr>) result) st2 st3 \<and>
       runner (request_executable (handle_request handle)) (request_args (handle_request handle))
         (request_input (handle_request handle)) (request_config (handle_request handle)) s = Some (result, s') \<and>
       sys_queue st3 = q' \<and> in_flight st3 = in_flight st \<and> drained st3 = drained st \<and>
       taken st3 = taken st @ [execution_id handle] \<and> started st3 = started st @ [execution_id handle]
     else q' = sys_queue st \<and> s' = s \<and> exec_pending q' = []"
proof (cases "tryDequeue (sys_queue st)")
  case (Pair a q)
  show ?thesis
  proof (cases a)
    case None
    with Pair assms(2) have "\<not> ok" "q' = sys_queue st" "s' = s" "exec_pending q' = []"
      by (auto simp: runNext_def tryDequeue_def split: list.splits)
    then show ?thesis by simp
  next
    case (Some handle)
    note deq = Pair [unfolded Some]
    define h where "h = handle\<lparr>handle_state := Running\<rparr>"
    from deq assms(2) obtain result where r: "ok"
      "runner (request_executable (handle_request handle)) (request_args (handle_request handle))
         (request_input (handle_request handle)) (request_config (handle_request handle)) s = Some (result, s')"
      "q' = complete (h\<lparr>handle_result := result, handle_state := state result\<rparr>) q"
      by (auto simp: runNext_def run_handle_def Let_def h_def elim!: bind_SomeE)
    have created: "handle_state handle = Created"
      using deq reachable_settled [OF assms(1)] by (auto simp: settled_only_def tryDequeue_Some)
    define st1 where "st1 = st\<lparr>sys_queue := q, in_flight := in_flight st @ [handle], taken := taken st @ [execution_id handle]\<rparr>"
    define st2 where "st2 = st1\<lparr>in_flight := in_flight st @ h # [], started := started st1 @ [execution_id handle]\<rparr>"
    define st3 where "st3 = st2\<lparr>sys_queue := complete (h\<lparr>handle_result := result, handle_state := state result\<rparr>) (sys_queue st2),
      in_flight := in_flight st @ []\<rparr>"
    have "sched_step (Takes handle) st st1" unfolding st1_def by (rule take [OF deq])
    moreover have "sched_step (Starts handle) st1 st2" unfolding st2_def h_def
      by (rule start [OF _ created]) (simp add: st1_def)
    moreover have "sched_step (Finishes (handle\<lparr>handle_state := Running\<rparr>) result) st2 st3"
      unfolding st3_def h_def by (rule finish) (simp_all add: st2_def h_def)
    moreover have "sys_queue st3 = q'" "in_flight st3 = in_flight st" "drained st3 = drained st"
      "taken st3 = taken st @ [execution_id handle]" "started st3 = started st @ [execution_id handle]"
      by (simp_all add: st3_def st2_def st1_def r(3))
    ultimately show ?thesis using r(1,2) by (simp only: if_True) blast
  qed
qed

lemma demo_queue_reachable: "\<exists>st. reachable st \<and> sys_queue st = demo_queue"
proof -
  define add where "add = (\<lambda>(i :: u64) request (st :: system). st\<lparr>sys_queue := push_handle (new_handle i request) (sys_queue st),
    submitted := submitted st @ [i]\<rparr>)"
  have "reachable st \<Longrightarrow> reachable (add i request st)" for i request st
    unfolding add_def by (rule reachable_step [OF _ submit])
  then have "reachable (add 3 (demo_request [3]) (add 2 (demo_request [2]) (add 1 (demo_request [1]) initial_system)))"
    using reachable_initial by blast
  then show ?thesis by (auto simp: add_def demo_queue_def initial_system_def)
qed

theorem runNext_refines_steps_witness:
  "\<exists>st q' s' handle result st1 st2 st3. reachable st \<and> sys_queue st = demo_queue \<and>
     runNext quick_runner demo_queue () = Some (True, q', s') \<and> sched_step (Takes handle) st st1 \<and>
     sched_step (Starts handle) st1 st2 \<and> sched_step (Finishes (handle\<lparr>handle_state := Running\<rparr>) result) st2 st3 \<and>
     sys_queue st3 = q'"
proof -
  obtain st where st: "reachable st" "sys_queue st = demo_queue" using demo_queue_reachable by blast
  have "\<exists>q' s'. runNext quick_runner (sys_queue st) () = Some (True, q', s')"
    by (simp add: st(2) runNext_def tryDequeue_def demo_queue_defs run_handle_def quick_runner_def)
  then obtain q' s' where r: "runNext quick_runner (sys_queue st) () = Some (True, q', s')" by blast
  from runNext_refines_steps [OF st(1) r] obtain handle result st1 st2 st3 where
    "sched_step (Takes handle) st st1" "sched_step (Starts handle) st1 st2"
    "sched_step (Finishes (handle\<lparr>handle_state := Running\<rparr>) result) st2 st3" "sys_queue st3 = q'" by auto
  with st r show ?thesis by metis
qed

end
