(* ===== verification/Submission_Queue.thy ===== *)
theory Submission_Queue
  imports Job_Queue Submission_Service
begin

text \<open>
  The queue, worker and pool of \<open>include/submission/submission_service.hpp\<close>. As in
  \<open>Execution_Scheduler\<close>, a queue operation is atomic under the queue's mutex. \<open>std::hash\<close> is
  implementation-defined and a parameter. An exception that leaves \<open>processNext\<close> is \<open>None\<close>, like a
  call that does not return; \<open>work_job_returns\<close> shows that none does.
\<close>

section \<open>The queue\<close>

record SubmissionRequest =
  solution_path :: string
  request_suite :: TestSuite
  submission_config :: ExecutionConfig

record SubmissionJob =
  submission_id :: u64
  job_request :: SubmissionRequest
  job_state :: ExecutionState
  job_result :: SubmissionResult

record SubmissionQueue =
  sub_pending :: "SubmissionJob list"
  sub_completed :: "SubmissionJob list"
  sub_max_pending :: nat

definition new_SubmissionQueue :: "nat \<Rightarrow> SubmissionQueue" where
  "new_SubmissionQueue max_pending =
     \<lparr>sub_pending = [], sub_completed = [], sub_max_pending = max_pending\<rparr>"

text \<open>\<open>SubmissionResult result{}\<close>: value-initialised.\<close>

definition empty_SubmissionResult :: SubmissionResult where
  "empty_SubmissionResult =
     \<lparr>compile_result = \<lparr>compile_exit_code = 0, compile_stderr = [], executable_path = []\<rparr>,
      submission_verdict = Accepted, test_runner_result = no_failure\<rparr>"

definition make_submission_id ::
  "'w kernel \<Rightarrow> (string \<Rightarrow> u64) \<Rightarrow> SubmissionRequest \<Rightarrow> 'w proc \<Rightarrow> u64 \<times> 'w proc"
where
  "make_submission_id K hash request s =
     (case sys K Clock s of (now, s) \<Rightarrow> (hash (solution_path request) XOR word_of_int (rv now), s))"

definition new_job :: "u64 \<Rightarrow> SubmissionRequest \<Rightarrow> SubmissionJob" where
  "new_job i request = \<lparr>submission_id = i, job_request = request, job_state = Created,
     job_result = empty_SubmissionResult\<rparr>"

definition push_job :: "SubmissionJob \<Rightarrow> SubmissionQueue \<Rightarrow> SubmissionQueue" where
  "push_job job q = q\<lparr>sub_pending := sub_pending q @ [job]\<rparr>"

definition sub_enqueue ::
  "'w kernel \<Rightarrow> (string \<Rightarrow> u64) \<Rightarrow> SubmissionRequest \<Rightarrow> SubmissionQueue \<Rightarrow> 'w proc
     \<Rightarrow> SubmissionJob \<times> SubmissionQueue \<times> 'w proc"
where
  "sub_enqueue K hash request q s =
     (case make_submission_id K hash request s of (i, s) \<Rightarrow>
        let job = new_job i request in (job, push_job job q, s))"

definition sub_tryEnqueue ::
  "'w kernel \<Rightarrow> (string \<Rightarrow> u64) \<Rightarrow> SubmissionRequest \<Rightarrow> SubmissionQueue \<Rightarrow> 'w proc
     \<Rightarrow> SubmissionJob option \<times> SubmissionQueue \<times> 'w proc"
where
  "sub_tryEnqueue K hash request q s =
     (if sub_max_pending q \<noteq> 0 \<and> length (sub_pending q) \<ge> sub_max_pending q then (None, q, s)
      else case make_submission_id K hash request s of (i, s) \<Rightarrow>
        let job = new_job i request in (Some job, push_job job q, s))"

definition sub_tryDequeue :: "SubmissionQueue \<Rightarrow> SubmissionJob option \<times> SubmissionQueue" where
  "sub_tryDequeue q =
     (case sub_pending q of
        [] \<Rightarrow> (None, q)
      | job # rest \<Rightarrow> (Some job, q\<lparr>sub_pending := rest\<rparr>))"

definition sub_complete :: "SubmissionJob \<Rightarrow> SubmissionQueue \<Rightarrow> SubmissionQueue" where
  "sub_complete job q = q\<lparr>sub_completed := sub_completed q @ [job]\<rparr>"

definition cancelled_job :: "SubmissionJob \<Rightarrow> SubmissionJob" where
  "cancelled_job job = job\<lparr>job_state := Cancelled\<rparr>"

definition sub_cancel :: "u64 \<Rightarrow> SubmissionQueue \<Rightarrow> bool \<times> SubmissionQueue" where
  "sub_cancel i q =
     (case erase_first (\<lambda>job. submission_id job = i) (sub_pending q) of
        None \<Rightarrow> (False, q)
      | Some (job, rest) \<Rightarrow>
          (True, q\<lparr>sub_pending := rest, sub_completed := sub_completed q @ [cancelled_job job]\<rparr>))"

definition sub_pendingCount :: "SubmissionQueue \<Rightarrow> nat" where
  "sub_pendingCount q = length (sub_pending q)"

definition sub_drainCompleted :: "SubmissionQueue \<Rightarrow> SubmissionJob list \<times> SubmissionQueue" where
  "sub_drainCompleted q = (sub_completed q, q\<lparr>sub_completed := []\<rparr>)"

section \<open>Worker and pool\<close>

text \<open>The evaluation of one job by \<open>SubmissionService\<close>, with its runner and judge.\<close>

definition work_job ::
  "'s process_runner \<Rightarrow> judge \<Rightarrow> SubmissionJob \<Rightarrow> 's \<Rightarrow> (SubmissionJob \<times> 's) option"
where
  "work_job runner judge job s = do {
     let job = job\<lparr>job_state := Running\<rparr>;
     (evaluated, s) \<leftarrow> evaluate_submission runner judge (solution_path (job_request job))
       (request_suite (job_request job)) (submission_config (job_request job)) s;
     case evaluated of
       Inl exn \<Rightarrow> None
     | Inr result \<Rightarrow> Some (job\<lparr>job_result := result, job_state := Finished\<rparr>, s)
   }"

record SubmissionWorker =
  has_queue :: bool

definition sub_processNext ::
  "'s process_runner \<Rightarrow> judge \<Rightarrow> SubmissionWorker \<Rightarrow> SubmissionQueue \<Rightarrow> 's \<Rightarrow> (bool \<times> SubmissionQueue \<times> 's) option"
where
  "sub_processNext runner judge worker q s =
     (if \<not> has_queue worker then Some (False, q, s)
      else case sub_tryDequeue q of
        (None, q) \<Rightarrow> Some (False, q, s)
      | (Some job, q) \<Rightarrow> do {
          (job, s) \<leftarrow> work_job runner judge job s;
          Some (True, sub_complete job q, s)
        })"

definition new_submission_pool :: "nat \<Rightarrow> SubmissionWorker list" where
  "new_submission_pool worker_count = replicate worker_count \<lparr>has_queue = True\<rparr>"

fun sub_drainOnce ::
  "'s process_runner \<Rightarrow> judge \<Rightarrow> SubmissionWorker list \<Rightarrow> SubmissionQueue \<Rightarrow> 's
     \<Rightarrow> (nat \<times> SubmissionQueue \<times> 's) option"
where
  "sub_drainOnce runner judge [] q s = Some (0, q, s)"
| "sub_drainOnce runner judge (worker # workers) q s = do {
     (processed, q, s) \<leftarrow> sub_processNext runner judge worker q s;
     (n, q, s) \<leftarrow> sub_drainOnce runner judge workers q s;
     Some ((if processed then Suc n else n), q, s)
   }"

partial_function (option) sub_drainAll ::
  "'s process_runner \<Rightarrow> judge \<Rightarrow> SubmissionWorker list \<Rightarrow> SubmissionQueue \<Rightarrow> 's
     \<Rightarrow> (nat \<times> SubmissionQueue \<times> 's) option"
where
  "sub_drainAll runner judge workers q s = do {
     (batch, q, s) \<leftarrow> sub_drainOnce runner judge workers q s;
     if batch = 0 then Some (0, q, s)
     else do { (n, q, s) \<leftarrow> sub_drainAll runner judge workers q s; Some (batch + n, q, s) }
   }"

declare sub_drainAll.simps [code]

section \<open>The contracts\<close>

interpretation sub: worker_pool sub_pending sub_completed submission_id cancelled_job push_job
  sub_tryDequeue sub_complete sub_cancel sub_drainCompleted "work_job runner judge"
  "sub_processNext runner judge \<lparr>has_queue = True\<rparr>"
  "\<lambda>n. sub_drainOnce runner judge (new_submission_pool n)"
  "\<lambda>n. sub_drainAll runner judge (new_submission_pool n)" for runner judge
proof unfold_locales
  show "sub_drainAll runner judge (new_submission_pool workers) q s = do {
      (batch, q, s) \<leftarrow> sub_drainOnce runner judge (new_submission_pool workers) q s;
      if batch = 0 then Some (0, q, s)
      else do { (n, q, s) \<leftarrow> sub_drainAll runner judge (new_submission_pool workers) q s;
                Some (batch + n, q, s) } }" for workers q s
    by (rule sub_drainAll.simps)
qed (simp_all add: push_job_def sub_tryDequeue_def sub_complete_def sub_cancel_def sub_drainCompleted_def
  cancelled_job_def sub_processNext_def new_submission_pool_def split: list.splits)

section \<open>Properties\<close>

lemma evaluate_submission_no_exception:
  assumes "evaluate_submission runner judge path suite cfg s = Some (x, s')"
  shows "\<exists>result. x = Inr result"
proof -
  obtain compiled s1 where c: "compile runner path (output_path path) s = Some (compiled, s1)"
    using assms unfolding evaluate_submission_def Let_def by (auto elim!: bind_SomeE)
  show ?thesis
  proof (cases "compile_exit_code compiled = 0")
    case True
    with assms c obtain tested s2 where
      t: "run_tests runner judge (output_path path) suite cfg s1 = Some (tested, s2)"
      unfolding evaluate_submission_def Let_def by (auto elim!: bind_SomeE)
    then obtain res where "tested = Inr res"
      using test_loop_outcome [where i = 0] unfolding run_tests_def by fastforce
    with assms c True t show ?thesis unfolding evaluate_submission_def Let_def by auto
  qed (use assms c in \<open>auto simp: evaluate_submission_def Let_def\<close>)
qed

text \<open>No exception leaves the evaluation of a job: it ends exactly when the evaluation does.\<close>

lemma work_job_returns:
  "work_job runner judge job s = None \<longleftrightarrow>
     evaluate_submission runner judge (solution_path (job_request job)) (request_suite (job_request job))
       (submission_config (job_request job)) s = None"
proof (cases "evaluate_submission runner judge (solution_path (job_request job)) (request_suite (job_request job))
       (submission_config (job_request job)) s")
  case None
  then show ?thesis by (simp add: work_job_def Let_def)
next
  case (Some x)
  obtain v s' where x: "x = (v, s')" by fastforce
  from evaluate_submission_no_exception [OF Some [unfolded x]] Some x show ?thesis
    by (auto simp: work_job_def Let_def)
qed

text \<open>
  C27. A pool with at least one worker drains its submission queue: if the evaluation of every waiting job
  returns, \<open>drainAll\<close> returns the number of jobs that waited, none is left, and the completed jobs
  follow the earlier ones in the order of submission, all in state \<open>Finished\<close>.
\<close>

theorem sub_drainAll_drains:
  assumes "0 < workers" "work_all (work_job runner judge) (sub_pending q) s = Some (jobs, s')"
  shows "\<exists>q'. sub_drainAll runner judge (new_submission_pool workers) q s = Some (sub_pendingCount q, q', s') \<and>
    sub_pendingCount q' = 0 \<and> sub_completed q' = sub_completed q @ jobs \<and>
    map submission_id jobs = map submission_id (sub_pending q) \<and> (\<forall>job \<in> set jobs. job_state job = Finished)"
proof -
  have "map submission_id jobs = map submission_id js \<and> (\<forall>job \<in> set jobs. job_state job = Finished)"
    if "work_all (work_job runner judge) js s = Some (jobs, s')" for js s jobs
    using that
    by (induction js arbitrary: s jobs)
       (auto simp: work_job_def Let_def elim!: bind_SomeE split: sum.splits)
  with assms(2) sub.drain_all_complete [OF assms] show ?thesis by (auto simp: sub_pendingCount_def)
qed

definition demo_jobs :: SubmissionQueue where
  "demo_jobs = push_job (new_job 5 \<lparr>solution_path = ''/tmp/a.cpp'', request_suite = demo_suite,
     submission_config = demo_config\<rparr>) (new_SubmissionQueue 0)"

theorem sub_drainAll_drains_witness:
  "\<exists>q' s'. sub_drainAll echo_runner (evaluate Accepted) (new_submission_pool 2) demo_jobs () = Some (1, q', s') \<and>
     sub_pendingCount q' = 0"
proof -
  have "\<exists>js s'. work_all (work_job echo_runner (evaluate Accepted)) (sub_pending demo_jobs) () = Some (js, s')"
    by (simp add: demo_jobs_def push_job_def new_job_def new_SubmissionQueue_def work_job_def
      evaluate_submission_def compile_def run_tests_def test_loop.simps demo_suite_def suite_size_def
      getTestCase_def echo_runner_def evaluate_def default_ExecutionResult_def Let_def)
  then obtain js s' where w: "work_all (work_job echo_runner (evaluate Accepted)) (sub_pending demo_jobs) () = Some (js, s')"
    by blast
  have "sub_pendingCount demo_jobs = 1"
    by (simp add: sub_pendingCount_def demo_jobs_def push_job_def new_SubmissionQueue_def)
  with sub_drainAll_drains [OF _ w, of 2] show ?thesis by auto
qed

text \<open>
  C28. First in, first out, and no submission is refused while there is room: \<open>tryEnqueue\<close> refuses exactly at
  the bound and otherwise puts the job behind those that wait, so that it is the one dequeued after as many
  \<open>tryDequeue\<close> calls as jobs were waiting.
\<close>

theorem sub_tryEnqueue_fifo:
  assumes "sub_tryEnqueue K hash request q s = (answer, q', s')"
  shows "(answer = None \<longleftrightarrow> sub_max_pending q \<noteq> 0 \<and> sub_max_pending q \<le> sub_pendingCount q) \<and>
    (\<forall>job. answer = Some job \<longrightarrow> job_request job = request \<and> job_state job = Created \<and>
       fst (sub_tryDequeue (((\<lambda>q. snd (sub_tryDequeue q)) ^^ sub_pendingCount q) q')) = Some job)"
proof -
  have next_of: "sub.next_of = (\<lambda>q. snd (sub_tryDequeue q))" by (simp add: sub.next_of_def fun_eq_iff)
  have "fst (sub_tryDequeue (((\<lambda>q. snd (sub_tryDequeue q)) ^^ length (sub_pending q)) (push_job job q))) = Some job" for job
    using sub.fifo_order [of "length (sub_pending q)" "push_job job q"]
    by (simp add: next_of push_job_def nth_append)
  with assms show ?thesis
    by (auto simp: sub_tryEnqueue_def sub_pendingCount_def new_job_def Let_def split: if_splits prod.splits)
qed

theorem sub_tryEnqueue_fifo_witness:
  "\<exists>job q' s'. sub_tryEnqueue (scripted (Ret 7)) (\<lambda>_. 0) (job_request (hd (sub_pending demo_jobs))) demo_jobs (boot [])
      = (Some job, q', s') \<and>
    fst (sub_tryDequeue (((\<lambda>q. snd (sub_tryDequeue q)) ^^ sub_pendingCount demo_jobs) q')) = Some job"
proof -
  obtain answer q' s' where e: "sub_tryEnqueue (scripted (Ret 7)) (\<lambda>_. 0)
      (job_request (hd (sub_pending demo_jobs))) demo_jobs (boot []) = (answer, q', s')"
    by (metis prod_cases3)
  have "sub_max_pending demo_jobs = 0" by (simp add: demo_jobs_def push_job_def new_SubmissionQueue_def)
  with sub_tryEnqueue_fifo [OF e] e show ?thesis by auto
qed

end
