(* ===== verification/Spec2Isabelle.thy ===== *)
theory Spec2Isabelle
  imports Main_Program Runner_Deadline Supervisor_Liveness Execution_Scheduler Submission_Queue
begin

text \<open>
  A verification of the online judge: a C++ program that compiles a submitted solution, runs it in a sandbox on the
  tests of a suite and derives a verdict. All source paths below are relative to the repository's root.

  \<^bold>\<open>The program.\<close> \<open>SubmissionService\<close> compiles a solution through \<open>Compiler\<close> and hands the executable to \<open>TestRunner\<close>, which
  runs it on each case of a \<open>TestSuite\<close> and asks \<open>Judge\<close> for a verdict. Compiler and test runner start processes through
  \<open>ProcessRunner::run\<close>, in which three kinds of process cooperate. The caller is the \<^emph>\<open>runner\<close>: it feeds standard input,
  collects the outputs and watches the clock. It forks the \<^emph>\<open>supervisor\<close>, which owns the \<open>Sandbox\<close>, forks the
  submission's processes, reaps them and reports over a control socket, in the messages of the sandbox
  protocol. The \<^emph>\<open>submission\<close> enters namespaces, a new root and resource limits before it executes the program.
  \<open>ExecutionScheduler\<close> and the submission pool queue runs and submissions for worker threads. \<open>main\<close> runs one program.

  \<^bold>\<open>How it is modelled.\<close> The kernel is not part of the repository and is a parameter \<open>K\<close>: a function from a system call
  and the state of the kernel to a reply and a new state (theory \<open>Posix\<close>). A process is a record \<open>proc\<close> of the kernel's
  state, \<open>errno\<close>, the static counter of executions and the log of all calls with their replies. Code that makes calls
  passes this record on; loops that may not end are partial functions into \<open>option\<close>, so that \<open>None\<close> is not
  returning; early returns and exits of a process are values of sum types. Both branches of a \<open>fork\<close> are modelled, the
  kernel's reply selects one. Properties speak of the log: which calls were made, in which order, what they moved.
  Machine integers keep their width where the code relies on it: message headers and payloads, wait statuses, the
  unsigned input offset, the cast of the poll timeout, identifiers.

  \<^bold>\<open>The theories.\<close>
  \<^item> \<open>Judge_Prelude\<close>: fact collections, byte images of integers, decimal printing, lists and options.
  \<^item> \<open>Posix\<close>: calls, replies, processes, the \<open>EINTR\<close> idiom, wait-status macros, logs.
  \<^item> \<open>Execution_Types\<close>: the enumerations and structs of \<open>include/common\<close>, \<open>include/judge\<close> and \<open>include/compiler\<close>.
  \<^item> \<open>Sandbox_Protocol\<close>: \<open>src/common/sandbox_protocol.cpp\<close>. The codec locale is interpreted for every payload; messages
    and wait statuses survive channels that split and interrupt transfers.
  \<^item> \<open>Sandbox\<close>: \<open>src/sandbox/sandbox.cpp\<close>, in the processes on both sides of its forks. Isolation before \<open>exec\<close>, attachment
    before release, cleanup after a failed creation, the exact behaviour of \<open>terminate\<close> and \<open>cleanupCgroup\<close>.
  \<^item> \<open>Supervisor\<close>: the child branch of \<open>ProcessRunner::run\<close>. \<open>Supervisor_Correct\<close>: the invariant of its loop, what a
    successful supervisor has reported, what every supervisor has done with its child. \<open>Supervisor_Liveness\<close>: it ends
    when its submission does, and what it does not do for a submission without a cgroup.
  \<^item> \<open>Process_Runner\<close>: the rest of \<open>src/runner/process_runner.cpp\<close>. \<open>Runner_Invariant\<close>: the invariant of the main loop
    with streams, report and descriptors; \<open>Runner_Liveness\<close>: each of its steps returns; \<open>Runner_Deadline\<close>: the
    wall-clock limit; \<open>Runner_Entry\<close>: the whole operation from its call, failures included, and execution identifiers.
    \<open>Call_Log\<close> and \<open>Returning\<close> hold what runner and supervisor share.
  \<^item> \<open>Judging\<close>, \<open>Test_Suite\<close>, \<open>Test_Runner\<close>, \<open>Submission_Service\<close>: \<open>src/judge\<close>, \<open>src/testcase\<close>, \<open>src/testrunner\<close>,
    \<open>src/compiler\<close> and \<open>src/submission\<close>. The locale \<open>sound_judge\<close> is what a client of \<open>IJudge\<close> relies on.
  \<^item> \<open>Job_Queue\<close>: the interface of the two queues and their pools, as locales. \<open>Execution_Scheduler\<close> and \<open>Submission_Queue\<close>
    interpret them for \<open>include/runner/execution_scheduler.hpp\<close> and \<open>include/submission/submission_service.hpp\<close>. The
    interleavings of clients and workers are a step relation whose steps are the critical sections of the code;
    taking a request from the queue and starting its run are different steps.
  \<^item> \<open>Main_Program\<close>: \<open>src/main.cpp\<close> without its console output.
  \<^item> This theory: what spans components, the way of an exit status from the submission to the caller and the meaning
    of the verdict \<open>Accepted\<close>.

  \<^bold>\<open>Hypotheses on the environment.\<close> \<open>honest\<close>: \<open>read\<close> and \<open>write\<close> transfer at most what was asked. \<open>fresh_fds\<close>: \<open>pipe\<close> and
  \<open>socketpair\<close> return new descriptors. \<open>patient\<close>: calls are not interrupted for ever. \<open>ticking\<close>: the steady clock does not go
  back and a successful poll takes at least a nanosecond. \<open>mortal\<close>: a child can be reaped after finitely many looks.
  \<open>sup_fit\<close>: \<open>open\<close> does not return a descriptor still in use, \<open>wait4\<close> fills in a whole \<open>struct rusage\<close>. \<open>well_connected\<close>: the descriptors of a
  run differ and its input is shorter than 2 to the 63rd bytes. \<open>accepts\<close> and \<open>delivers\<close>: a byte channel. Each theorem that
  uses one is applied to a concrete kernel that satisfies it.

  \<^bold>\<open>Bounds.\<close> There is no fuel. The bounded loops of the source (five attempts of \<open>cleanupCgroup\<close>, hundred looks of the failure
  cleanups) count down the source's own numbers. \<open>deadline_enforced\<close> bounds the rounds of the main loop by the nanoseconds left.

  \<^bold>\<open>What is not modelled.\<close> Text written to \<open>std::cerr\<close> and \<open>std::cout\<close>; running out of memory; the 64-bit representation of
  \<open>std::chrono\<close> counts, so that the overflow of the deadline for a wall limit of centuries is not visible (deadlines and
  readings are unbounded integers); threads inside one critical section, as a mutex excludes them; the effect of
  the kernel's namespaces, limits and cgroups themselves; tests, fixtures, build files and documentation.
\<close>

section \<open>From the submission's end to the caller's result\<close>

text \<open>What is received last is what was sent last.\<close>

lemma last_message:
  assumes "first @ hdr @ bs = other @ message_bytes Terminated (enc_terminated t)" "length bs = sizeof_terminated"
    "valid_rusage (usage t)"
  shows "dec_terminated bs = t"
proof -
  have "length (enc_terminated t) = length bs" using assms(2,3) by (simp add: length_enc_terminated)
  moreover have "(first @ hdr) @ bs = (other @ enc_header \<lparr>msg_type = msg_code Terminated,
      payload_size = word_of_nat (length (enc_terminated t))\<rparr>) @ enc_terminated t"
    using assms(1) by (simp add: message_bytes_def)
  ultimately have "bs = enc_terminated t" by (metis append_eq_append_conv)
  then show ?thesis using assms(3) by (simp add: terminated_codec.dec_enc)
qed

text \<open>
  C4. The exit of the submission reaches the caller. Let the runner and the supervisor of one execution both end without
  a failure, and let the control socket deliver what was put on it. Then exit code, signal, CPU time and memory of
  the runner's result are those of the one wait with which the supervisor reaped the submission (or, for the exit
  status, of the status the submission's parent forwarded over the status pipe).
\<close>

theorem exit_status_end_to_end:
  assumes "well_connected K e" "run_parent K e fresh_result s = Some (res, s')" "emits s new s'"
    "status res \<notin> {RunnerFailure, SandboxFailure}"
    and "sup_fit K' (sup_env_of cfd process sb)"
    "supervise_submission K' cfd process sb t = Some (Exited EXIT_SUCCESS, t')" "emits t new' t'"
    and "got_from (control_r e) new = put_on cfd new'"
  shows "\<exists>r st. (Wait4 (host_pid process) WNOHANG, r) \<in> set new' \<and> rv r = host_pid process \<and>
    reaped (host_pid process) new' = 1 \<and>
    (st = reply_status r \<or> forwarded (status_fd process) st new') \<and>
    reports res \<lparr>wait_status = st, usage = reply_rusage r\<rparr>"
proof -
  have nf: "\<not> failure res" using assms(4) by (simp add: failure_def)
  obtain n first hdr bs where n: "emits s n s'" "got_from (control_r e) n = first @ hdr @ bs"
    "length bs = sizeof_terminated" "reports res (dec_terminated bs)"
    by (rule run_parent_witnessed [OF assms(1,2) nf])
  have "n = new" using n(1) assms(3) by (simp add: emits_def)
  obtain n' r m where m: "emits t n' t'" "reaped (host_pid process) n' = 1"
    "put_on cfd n' = message_bytes Ready (enc_ready (ready_payload process)) @ message_bytes Terminated (enc_terminated m)"
    "(Wait4 (host_pid process) WNOHANG, r) \<in> set n'" "rv r = host_pid process" "usage m = reply_rusage r"
    "valid_rusage (usage m)" "wait_status m = reply_status r \<or> forwarded (status_fd process) (wait_status m) n'"
    using supervisor_reported [OF assms(5,6)] by blast
  have "n' = new'" using m(1) assms(7) by (simp add: emits_def)
  have "dec_terminated bs = m"
  proof (rule last_message [OF _ n(3) m(7)])
    show "first @ hdr @ bs = message_bytes Ready (enc_ready (ready_payload process)) @ message_bytes Terminated (enc_terminated m)"
      using n(2) m(3) assms(8) \<open>n = new\<close> \<open>n' = new'\<close> by metis
  qed
  then have "reports res \<lparr>wait_status = wait_status m, usage = reply_rusage r\<rparr>" using n(4) m(6) by (cases m) simp
  with m \<open>n' = new'\<close> show ?thesis by blast
qed

section \<open>What an accepted verdict means\<close>

text \<open>The runs behind the results of a list of test cases.\<close>

lemma run_cases_runs:
  "run_cases runner executable cfg cs s = Some (executions, s') \<Longrightarrow>
     list_all2 (\<lambda>c ex. \<exists>u v. runner executable [] (case_input c) cfg u = Some (ex, v)) cs executions"
proof (induction cs arbitrary: s executions)
  case (Cons c cs)
  then obtain ex t exs where "runner executable [] (case_input c) cfg s = Some (ex, t)" "executions = ex # exs"
    "run_cases runner executable cfg cs t = Some (exs, s')" by (auto split: option.splits)
  with Cons.IH show ?case by auto
qed simp

lemma accepted_by_judge:
  assumes "verdict (evaluate junk ex expected) = Accepted" "junk \<noteq> Accepted"
  shows "\<not> terminated_by_signal ex \<and> exit_code ex = 0 \<and> stdout_output ex = expected"
  using assms by (auto simp: evaluate_def Let_def split: if_splits)

text \<open>A run that the judge accepted is witnessed by its log.\<close>

lemma accepted_run_witnessed:
  assumes "honest K" "fresh_fds K held" "length input < 2 ^ 63" "run K executable args input cfg u = Some (ex, v)"
    "exit_code ex = 0"
  shows "\<exists>new. emits u new v \<and> witnessed input ex new"
  using run_outcome [OF assms(1-4)] assms(5) by (auto split: if_splits)

text \<open>
  C3. What \<open>Accepted\<close> means. When \<open>SubmissionService::evaluate\<close> returns the verdict \<open>Accepted\<close> (and the judge's
  uninitialised memory did not happen to hold that value), every test of the suite was run by \<open>ProcessRunner::run\<close> on
  the compiled executable, and the log of each run shows that the bytes read from the submission's standard output are
  the expected ones, that it was fed a prefix of the test's input, and that the supervisor reported a normal exit
  with code zero. No failure of the runner or of the sandbox is ever accepted.
\<close>

theorem accepted_submission_sound:
  assumes "honest K" "fresh_fds K held" "\<forall>c \<in> set (test_cases suite). length (case_input c) < 2 ^ 63"
    "\<forall>ex expected. junk ex expected \<noteq> Accepted"
    and "SubmissionService_evaluate K junk path suite cfg s = Some (Inr result, s')"
    "submission_verdict result = Accepted"
  shows "\<exists>compiled s1 executions. compile (run K) path (output_path path) s = Some (compiled, s1) \<and>
    compile_exit_code compiled = 0 \<and>
    run_cases (run K) (output_path path) cfg (test_cases suite) s1 = Some (executions, s') \<and>
    list_all2 (\<lambda>c ex. exit_code ex = 0 \<and> stdout_output ex = expected_output c \<and>
     (\<exists>u v new. run K (output_path path) [] (case_input c) cfg u = Some (ex, v) \<and> emits u new v \<and>
        witnessed (case_input c) ex new)) (test_cases suite) executions"
proof -
  define judge where "judge = (\<lambda>execution expected. evaluate (junk execution expected) execution expected)"
  have "evaluate_submission (run K) judge path suite cfg s = Some (Inr result, s')"
    using assms(5) by (simp add: SubmissionService_evaluate_def judge_def)
  from evaluate_submission_verdict [OF this] assms(6) obtain compiled executions s1 where
    comp: "compile (run K) path (output_path path) s = Some (compiled, s1)" "compile_exit_code compiled = 0" and
    ex: "run_cases (run K) (output_path path) cfg (take (length executions) (test_cases suite)) s1 = Some (executions, s')"
    and acc: "list_all2 (accepts_case judge) (test_cases suite) executions" by (auto split: if_splits)
  have all: "take (length executions) (test_cases suite) = test_cases suite" using acc by (simp add: list_all2_lengthD)
  with run_cases_runs [OF ex] have runs: "list_all2 (\<lambda>c ex. \<exists>u v. run K (output_path path) [] (case_input c) cfg u = Some (ex, v))
    (test_cases suite) executions" by simp
  have "exit_code e = 0 \<and> stdout_output e = expected_output c \<and>
     (\<exists>u v new. run K (output_path path) [] (case_input c) cfg u = Some (e, v) \<and> emits u new v \<and> witnessed (case_input c) e new)"
    if c: "c \<in> set (test_cases suite)" and a: "accepts_case judge c e"
      and r: "\<exists>u v. run K (output_path path) [] (case_input c) cfg u = Some (e, v)" for c e
  proof -
    have j: "exit_code e = 0" "stdout_output e = expected_output c"
      using accepted_by_judge [of "junk e (expected_output c)" e "expected_output c"] a assms(4)
      by (auto simp: accepts_case_def judge_def)
    obtain u v where "run K (output_path path) [] (case_input c) cfg u = Some (e, v)" using r by blast
    with accepted_run_witnessed [OF assms(1,2) _ this j(1)] assms(3) c j show ?thesis by blast
  qed
  note each = this
  have "list_all2 (\<lambda>c ex. accepts_case judge c ex \<and> (\<exists>u v. run K (output_path path) [] (case_input c) cfg u = Some (ex, v)))
    (test_cases suite) executions" using acc runs by (auto simp: list_all2_conv_all_nth)
  then have "list_all2 (\<lambda>c ex. exit_code ex = 0 \<and> stdout_output ex = expected_output c \<and>
     (\<exists>u v new. run K (output_path path) [] (case_input c) cfg u = Some (ex, v) \<and> emits u new v \<and>
        witnessed (case_input c) ex new)) (test_cases suite) executions"
    by (rule list.rel_mono_strong) (use each in blast)
  with comp ex all show ?thesis by (intro exI [of _ compiled] exI [of _ s1] exI conjI) simp_all
qed

text \<open>A submission that prints one byte, and a suite of one test that expects it.\<close>

definition print_suite :: TestSuite where
  "print_suite = \<lparr>test_cases = [\<lparr>case_input = [65], expected_output = [66]\<rparr>]\<rparr>"

lemma print_accepted:
  "\<exists>result s'. SubmissionService_evaluate print_kernel (\<lambda>_ _. WrongAnswer) ''/x/a.cpp'' print_suite brief_config
      (boot (3, [], [])) = Some (Inr result, s') \<and> submission_verdict result = Accepted"
proof -
  let ?out = "output_path ''/x/a.cpp''"
  obtain c s1 where c: "run print_kernel ''g++'' [''/x/a.cpp'', ''-o'', ?out] [] \<lparr>limit = compile_limits, sandbox_config = default_SandboxConfig\<rparr>
      (boot (3, [], [])) = Some (c, s1)" "exit_code c = 0" "world s1 = (11, [], [])"
    using print_run [of "boot (3, [], [])" 3 "[]" "[]" "\<lparr>limit = compile_limits, sandbox_config = default_SandboxConfig\<rparr>"
      "''g++''" "[''/x/a.cpp'', ''-o'', ?out]" "[]"] by (auto simp: boot_simps compile_limits_def)
  obtain res s2 where r: "run print_kernel ?out [] [65] brief_config s1 = Some (res, s2)" "exit_code res = 0"
      "\<not> terminated_by_signal res" "stdout_output res = [66]"
    using print_run [OF c(3), of brief_config ?out "[]" "[65]"] by auto
  show ?thesis using c r
    by (simp add: SubmissionService_evaluate_def evaluate_submission_def compile_def run_tests_def test_loop.simps print_suite_def
      suite_size_def getTestCase_def evaluate_def no_failure_def Let_def)
qed

theorem accepted_submission_sound_witness:
  "\<exists>result s' (executions :: ExecutionResult list). SubmissionService_evaluate print_kernel (\<lambda>_ _. WrongAnswer) ''/x/a.cpp'' print_suite brief_config
       (boot (3, [], [])) = Some (Inr result, s') \<and> submission_verdict result = Accepted \<and>
     list_all2 (\<lambda>c ex. exit_code ex = 0 \<and> stdout_output ex = expected_output c) (test_cases print_suite) executions"
proof -
  obtain result s' where r: "SubmissionService_evaluate print_kernel (\<lambda>_ _. WrongAnswer) ''/x/a.cpp'' print_suite brief_config
      (boot (3, [], [])) = Some (Inr result, s')" "submission_verdict result = Accepted" using print_accepted by blast
  have "\<forall>c \<in> set (test_cases print_suite). length (case_input c) < 2 ^ 63" by (simp add: print_suite_def)
  from accepted_submission_sound [OF print_honest print_fresh this _ r] obtain executions where
    "list_all2 (\<lambda>c ex. exit_code ex = 0 \<and> stdout_output ex = expected_output c \<and>
       (\<exists>u v new. run print_kernel (output_path ''/x/a.cpp'') [] (case_input c) brief_config u = Some (ex, v) \<and> emits u new v \<and>
        witnessed (case_input c) ex new)) (test_cases print_suite) executions" by auto
  then have "list_all2 (\<lambda>c ex. exit_code ex = 0 \<and> stdout_output ex = expected_output c) (test_cases print_suite) executions"
    by (rule list_all2_mono) simp
  with r show ?thesis by blast
qed

text \<open>The runner of one concrete run receives what the supervisor of another has sent.\<close>

lemma demo_message_sent:
  "demo_message = message_bytes Ready (enc_ready (ready_payload demo_process)) @
     message_bytes Terminated (enc_terminated \<lparr>wait_status = 0, usage = zero_rusage\<rparr>)"
  by (simp add: demo_message_def message_bytes_def ready_payload_def demo_process_def)

theorem exit_status_end_to_end_witness:
  "\<exists>res s' t' r st. run_parent demo_kernel demo_env fresh_result (boot (demo_message, [66])) = Some (res, s') \<and>
     supervise_submission steady_kernel 4 demo_process demo_sandbox (boot 1) = Some (Exited EXIT_SUCCESS, t') \<and>
     (Wait4 101 WNOHANG, r) \<in> set (calls t') \<and> reports res \<lparr>wait_status = st, usage = reply_rusage r\<rparr>"
proof -
  obtain res s' where r: "run_parent demo_kernel demo_env fresh_result (boot (demo_message, [66])) = Some (res, s')"
    "status res = Completed" "got_from 3 (calls s') = demo_message" using demo_run by blast
  obtain t' where t: "supervise_submission steady_kernel 4 demo_process demo_sandbox (boot 1) = Some (Exited EXIT_SUCCESS, t')"
    "put_on 4 (calls t') = demo_message" using demo_supervisor unfolding demo_message_sent by blast
  have e: "emits (boot (demo_message, [66])) (calls s') s'" "emits (boot 1) (calls t') t'"
    by (simp_all add: emits_def boot_simps)
  have "got_from (control_r demo_env) (calls s') = put_on 4 (calls t')" using r(3) t(2) by (simp add: demo_env_def)
  from exit_status_end_to_end [OF demo_well_connected r(1) e(1) demo_not_failure [OF r(2)] steady_fit t(1) e(2) this] r(1) t(1)
  show ?thesis by (auto simp: demo_process_def)
qed

end
